theory Spec2Isabelle
  imports Main
begin

section \<open>Data model of the preprocessor\<close>

text \<open>
  The interfaces \<^verbatim>\<open>ConceptDefinition\<close>, \<^verbatim>\<open>ConceptIndex\<close> and
  \<^verbatim>\<open>FileProcessingResult\<close> of the preprocessor. A JavaScript string is modelled as
  a \<open>string\<close> whose characters are the code units \<open>0..255\<close>. The field \<^verbatim>\<open>section\<close>
  is called \<open>sectionName\<close>, since \<^verbatim>\<open>section\<close> is a keyword here, and the
  \<^verbatim>\<open>filePath\<close> of a processing result is called \<open>resultFilePath\<close>, since a second
  record cannot have a field \<open>filePath\<close> as well. Line numbers are natural numbers;
  a column is an integer, since \<^verbatim>\<open>indexOf\<close> can return \<open>-1\<close>.
\<close>

record ConceptDefinition =
  concept :: string
  filePath :: string
  line :: nat
  character :: int
  content :: "string option"
  sectionName :: "string option"

type_synonym ConceptIndex = "string \<rightharpoonup> ConceptDefinition list"

record FileProcessingResult =
  resultFilePath :: string
  definedConcepts :: "ConceptDefinition list"
  usedConcepts :: "ConceptDefinition list"
  error :: "string option"

section \<open>String primitives of the runtime\<close>

text \<open>\<^verbatim>\<open>\s\<close> and \<^verbatim>\<open>trim()\<close>: tab, line feed, vertical tab, form feed, carriage
  return, space and no-break space are the white space among the code units \<open>0..255\<close>.\<close>

definition isWhiteSpace :: "char \<Rightarrow> bool" where
  "isWhiteSpace c \<longleftrightarrow>
     c \<in> set [CHR 0x09, CHR 0x0A, CHR 0x0B, CHR 0x0C, CHR 0x0D, CHR '' '', CHR 0xA0]"

text \<open>The character class \<^verbatim>\<open>[+\-\.0-9A-Z_a-z]\<close>.\<close>

definition isConceptChar :: "char \<Rightarrow> bool" where
  "isConceptChar c \<longleftrightarrow>
     c \<in> set ''+-.0123456789ABCDEFGHIJKLMNOPQRSTUVWXYZ_abcdefghijklmnopqrstuvwxyz''"

text \<open>The character class \<^verbatim>\<open>[^\:]\<close>.\<close>

definition notColon :: "char \<Rightarrow> bool" where
  "notColon c \<longleftrightarrow> c \<noteq> CHR '':''"

definition trim :: "string \<Rightarrow> string" where
  "trim s = rev (dropWhile isWhiteSpace (rev (dropWhile isWhiteSpace s)))"

text \<open>\<^verbatim>\<open>toLowerCase()\<close> on the code units \<open>0..255\<close>: \<open>A..Z\<close> and the Latin-1
  capitals \<open>0xC0..0xDE\<close> (without the multiplication sign \<open>0xD7\<close>) move up by 32.\<close>

definition toLowerChar :: "char \<Rightarrow> char" where
  "toLowerChar c =
     (let n = (of_char c :: nat)
      in if (65 \<le> n \<and> n \<le> 90) \<or> (192 \<le> n \<and> n \<le> 222 \<and> n \<noteq> 215)
         then char_of (n + 32) else c)"

definition toLowerCase :: "string \<Rightarrow> string" where
  "toLowerCase s = map toLowerChar s"

text \<open>\<^verbatim>\<open>content.split('\n')\<close>: the result is never empty.\<close>

fun split_newline :: "string \<Rightarrow> string list" where
  "split_newline [] = [[]]"
| "split_newline (c # cs) =
     (if c = CHR 0x0A then [] # split_newline cs
      else (case split_newline cs of
              [] \<Rightarrow> [[c]]
            | l # ls \<Rightarrow> (c # l) # ls))"

text \<open>\<^verbatim>\<open>hay.indexOf(needle)\<close>, searched from position \<open>i\<close> of the original string:
  the first position where \<open>needle\<close> starts, \<open>-1\<close> when there is none.\<close>

fun indexOfFrom :: "nat \<Rightarrow> string \<Rightarrow> string \<Rightarrow> int" where
  "indexOfFrom i needle [] = (if needle = [] then int i else - 1)"
| "indexOfFrom i needle (c # cs) =
     (if take (length needle) (c # cs) = needle then int i
      else indexOfFrom (Suc i) needle cs)"

definition indexOf :: "string \<Rightarrow> string \<Rightarrow> int" where
  "indexOf hay needle = indexOfFrom 0 needle hay"

text \<open>\<^verbatim>\<open>s.slice(1, -1)\<close>: without the first and the last character.\<close>

definition slice1 :: "string \<Rightarrow> string" where
  "slice1 s = butlast (tl s)"

section \<open>The regular expressions of the extractor\<close>

text \<open>
  A match of \<^verbatim>\<open>:C+:\<close> at the head of a string, for a character class \<open>C\<close> that
  excludes the colon: a colon, the longest run of \<open>C\<close> (not empty), a colon. The
  result is the text between the colons. No shorter run can be followed by a colon,
  so the greedy match is the only one.
\<close>

definition tokenAt :: "(char \<Rightarrow> bool) \<Rightarrow> string \<Rightarrow> string option" where
  "tokenAt C s =
     (case s of
        [] \<Rightarrow> None
      | c # cs \<Rightarrow>
          if c \<noteq> CHR '':'' then None
          else (let body = takeWhile C cs
                in if body \<noteq> [] \<and> take 1 (drop (length body) cs) = '':''
                   then Some body else None))"

text \<open>
  All matches of the global regular expression \<^verbatim>\<open>/:C+:/g\<close>, from left to right
  and without overlap, as \<^verbatim>\<open>exec\<close> in a loop and \<^verbatim>\<open>match\<close> find them: each with
  its index in the scanned text (\<open>i\<close> is the index of the head of the rest) and the
  text between its colons.
\<close>

function matchAll :: "(char \<Rightarrow> bool) \<Rightarrow> nat \<Rightarrow> string \<Rightarrow> (nat \<times> string) list" where
  "matchAll C i [] = []"
| "matchAll C i (c # cs) =
     (case tokenAt C (c # cs) of
        Some body \<Rightarrow> (i, body) # matchAll C (i + length body + 2) (drop (length body + 1) cs)
      | None \<Rightarrow> matchAll C (Suc i) cs)"
  by pat_completeness auto
termination
  by (relation "measure (\<lambda>(C, i, s). length s)") auto

text \<open>The section marker \<^verbatim>\<open>/^\*\*\*[^*]+\*\*\*$/\<close>, tested on a trimmed line.\<close>

definition isSectionHeader :: "string \<Rightarrow> bool" where
  "isSectionHeader t \<longleftrightarrow>
     take 3 t = ''***'' \<and>
     (let inner = takeWhile (\<lambda>c. c \<noteq> CHR ''*'') (drop 3 t)
      in inner \<noteq> [] \<and> drop (3 + length inner) t = ''***'')"

text \<open>\<^verbatim>\<open>trimmedLine.replace(/\*/g, '').toLowerCase().trim()\<close>.\<close>

definition headerSection :: "string \<Rightarrow> string" where
  "headerSection t = trim (toLowerCase (filter (\<lambda>c. c \<noteq> CHR ''*'') t))"

text \<open>\<^verbatim>\<open>/^\s+/.test(line)\<close>.\<close>

definition hasIndentation :: "string \<Rightarrow> bool" where
  "hasIndentation l \<longleftrightarrow> (case l of [] \<Rightarrow> False | c # _ \<Rightarrow> isWhiteSpace c)"

text \<open>
  The length matched by the tail \<^verbatim>\<open>(?:,\s*:[^\:]+:)*\<close> of the definition pattern at
  the head of a string: a comma, the white space after it, one token, and again.
\<close>

function definitionTail :: "string \<Rightarrow> nat" where
  "definitionTail [] = 0"
| "definitionTail (c # cs) =
     (if c \<noteq> CHR '','' then 0
      else (let ws = length (takeWhile isWhiteSpace cs)
            in case tokenAt notColon (drop ws cs) of
                 None \<Rightarrow> 0
               | Some body \<Rightarrow>
                   1 + ws + (length body + 2)
                     + definitionTail (drop (ws + (length body + 2)) cs)))"
  by pat_completeness auto
termination
  by (relation "measure length") auto

text \<open>\<^verbatim>\<open>trimmedLine.match(/^-\s(:[^\:]+:)(?:,\s*:[^\:]+:)*/)\<close>: the matched prefix
  (\<^verbatim>\<open>definitionMatch[0]\<close>), or \<open>None\<close> for \<^verbatim>\<open>null\<close>.\<close>

definition definitionMatch :: "string \<Rightarrow> string option" where
  "definitionMatch t =
     (case t of
        c1 # c2 # rest \<Rightarrow>
          if c1 = CHR ''-'' \<and> isWhiteSpace c2 then
            (case tokenAt notColon rest of
               None \<Rightarrow> None
             | Some body \<Rightarrow>
                 Some (take (2 + (length body + 2)
                              + definitionTail (drop (length body + 2) rest)) t))
          else None
      | _ \<Rightarrow> None)"

text \<open>\<^verbatim>\<open>fullMatch.match(/:([^\:]+):/g) || []\<close>: the matched texts, colons included.\<close>

definition conceptCandidates :: "string \<Rightarrow> string list" where
  "conceptCandidates fullMatch =
     map (\<lambda>(i, body). CHR '':'' # body @ '':'') (matchAll notColon 0 fullMatch)"

text \<open>\<^verbatim>\<open>/^:[+\-\.0-9A-Z_a-z]+:$/.test(candidate)\<close>: one token and nothing else.\<close>

definition validConcept :: "string \<Rightarrow> bool" where
  "validConcept candidate \<longleftrightarrow>
     (case tokenAt isConceptChar candidate of
        None \<Rightarrow> False
      | Some body \<Rightarrow> length candidate = length body + 2)"

section \<open>The concept extractor\<close>

subsection \<open>Definitions\<close>

text \<open>
  The body of the loop over \<^verbatim>\<open>conceptCandidates\<close> in
  \<^verbatim>\<open>extractConceptsFromDefinitions\<close>: one record for each candidate that passes
  \<^verbatim>\<open>validConceptRegex\<close>, its column found by \<^verbatim>\<open>line.indexOf(candidate)\<close>.
\<close>

fun pushCandidates ::
  "string \<Rightarrow> nat \<Rightarrow> string \<Rightarrow> string \<Rightarrow> string list \<Rightarrow> ConceptDefinition list" where
  "pushCandidates fp lineIndex currentSection l [] = []"
| "pushCandidates fp lineIndex currentSection l (candidate # rest) =
     (if validConcept candidate then
        \<lparr>concept = slice1 candidate, filePath = fp, line = lineIndex,
         character = indexOf l candidate, content = Some l,
         sectionName = Some currentSection\<rparr>
        # pushCandidates fp lineIndex currentSection l rest
      else pushCandidates fp lineIndex currentSection l rest)"

text \<open>What one line inside a definitions section adds to \<^verbatim>\<open>concepts\<close>.\<close>

definition lineDefinitions ::
  "string \<Rightarrow> nat \<Rightarrow> string \<Rightarrow> string \<Rightarrow> ConceptDefinition list" where
  "lineDefinitions fp lineIndex currentSection l =
     (case definitionMatch (trim l) of
        None \<Rightarrow> []
      | Some fullMatch \<Rightarrow>
          pushCandidates fp lineIndex currentSection l (conceptCandidates fullMatch))"

text \<open>
  The loop over the lines of \<^verbatim>\<open>extractConceptsFromDefinitions\<close>, with its variables
  \<^verbatim>\<open>lineIndex\<close>, \<^verbatim>\<open>inDefinitionsSection\<close> and \<^verbatim>\<open>currentSection\<close>; the result is
  what the loop pushes to \<^verbatim>\<open>concepts\<close>, in order.
\<close>

fun definitionsLoop ::
  "string \<Rightarrow> nat \<Rightarrow> bool \<Rightarrow> string \<Rightarrow> string list \<Rightarrow> ConceptDefinition list" where
  "definitionsLoop fp lineIndex inDefinitionsSection currentSection [] = []"
| "definitionsLoop fp lineIndex inDefinitionsSection currentSection (l # ls) =
     (if isSectionHeader (trim l) then
        (let currentSection' = headerSection (trim l);
             inDefinitionsSection' =
               (if currentSection' \<noteq> ''definitions'' \<and> inDefinitionsSection then False
                else currentSection' = ''definitions'')
         in definitionsLoop fp (Suc lineIndex) inDefinitionsSection' currentSection' ls)
      else if \<not> inDefinitionsSection then
        definitionsLoop fp (Suc lineIndex) inDefinitionsSection currentSection ls
      else
        lineDefinitions fp lineIndex currentSection l
        @ definitionsLoop fp (Suc lineIndex) inDefinitionsSection currentSection ls)"

definition extractConceptsFromDefinitions :: "string \<Rightarrow> string \<Rightarrow> ConceptDefinition list" where
  "extractConceptsFromDefinitions fp text =
     definitionsLoop fp 0 False [] (split_newline text)"

subsection \<open>Usages\<close>

text \<open>
  The \<^verbatim>\<open>while\<close> loop over the matches of \<^verbatim>\<open>conceptRegex\<close> in \<^verbatim>\<open>prevSpecText\<close>,
  with its list \<^verbatim>\<open>pushedConcepts\<close>: a name already pushed is skipped.
\<close>

fun pushMatches ::
  "string \<Rightarrow> nat \<Rightarrow> string \<Rightarrow> string \<Rightarrow> string list \<Rightarrow> (nat \<times> string) list
     \<Rightarrow> ConceptDefinition list" where
  "pushMatches fp currentLineIndex currentSection prevSpecText pushedConcepts [] = []"
| "pushMatches fp currentLineIndex currentSection prevSpecText pushedConcepts
       ((index, conceptName) # rest) =
     (if conceptName \<in> set pushedConcepts then
        pushMatches fp currentLineIndex currentSection prevSpecText pushedConcepts rest
      else
        \<lparr>concept = conceptName, filePath = fp, line = currentLineIndex,
         character = int index, content = Some prevSpecText,
         sectionName = Some currentSection\<rparr>
        # pushMatches fp currentLineIndex currentSection prevSpecText
            (pushedConcepts @ [conceptName]) rest)"

definition scanSpecText :: "string \<Rightarrow> nat \<Rightarrow> string \<Rightarrow> string \<Rightarrow> ConceptDefinition list" where
  "scanSpecText fp currentLineIndex currentSection prevSpecText =
     pushMatches fp currentLineIndex currentSection prevSpecText []
       (matchAll isConceptChar 0 prevSpecText)"

text \<open>
  The loop over the lines of \<^verbatim>\<open>extractConceptsFromSpecText\<close>, with its variables
  \<^verbatim>\<open>lineIndex\<close>, \<^verbatim>\<open>currentSection\<close>, \<^verbatim>\<open>prevSpecText\<close> and
  \<^verbatim>\<open>currentLineIndex\<close>. A section marker only sets the section. An indented line
  is appended to \<^verbatim>\<open>prevSpecText\<close>. Any other line sets \<^verbatim>\<open>currentLineIndex\<close> to
  its own index, scans \<^verbatim>\<open>prevSpecText\<close> and empties it; the line's own text is not
  added to \<^verbatim>\<open>prevSpecText\<close>. After the last line the function returns
  \<^verbatim>\<open>concepts\<close>, whatever \<^verbatim>\<open>prevSpecText\<close> holds.
\<close>

fun specTextLoop ::
  "string \<Rightarrow> nat \<Rightarrow> string \<Rightarrow> string \<Rightarrow> nat \<Rightarrow> string list \<Rightarrow> ConceptDefinition list" where
  "specTextLoop fp lineIndex currentSection prevSpecText currentLineIndex [] = []"
| "specTextLoop fp lineIndex currentSection prevSpecText currentLineIndex (l # ls) =
     (if isSectionHeader (trim l) then
        specTextLoop fp (Suc lineIndex) (headerSection (trim l)) prevSpecText
          currentLineIndex ls
      else if hasIndentation l then
        specTextLoop fp (Suc lineIndex) currentSection (prevSpecText @ l @ [CHR 0x0A])
          currentLineIndex ls
      else
        (let currentLineIndex' = lineIndex
         in scanSpecText fp currentLineIndex' currentSection prevSpecText
            @ specTextLoop fp (Suc lineIndex) currentSection [] currentLineIndex' ls))"

definition extractConceptsFromSpecText :: "string \<Rightarrow> string \<Rightarrow> ConceptDefinition list" where
  "extractConceptsFromSpecText fp text =
     specTextLoop fp 0 [] [] 0 (split_newline text)"

text \<open>
  The file system as the scanner and the extractor see it: what
  \<^verbatim>\<open>fileScanner.scanWorkspace()\<close> resolves to and what \<^verbatim>\<open>fs.readFileSync\<close> returns
  for a path, \<open>Inl\<close> carrying the text of the error thrown.
\<close>

record environment =
  scanWorkspace :: "string + string list"
  readFileSync :: "string \<Rightarrow> string + string"

definition processFile :: "environment \<Rightarrow> string \<Rightarrow> FileProcessingResult" where
  "processFile env fp =
     (case readFileSync env fp of
        Inr text \<Rightarrow>
          \<lparr>resultFilePath = fp,
           definedConcepts = extractConceptsFromDefinitions fp text,
           usedConcepts = extractConceptsFromSpecText fp text,
           error = None\<rparr>
      | Inl e \<Rightarrow>
          \<lparr>resultFilePath = fp, definedConcepts = [], usedConcepts = [],
           error = Some (''Error processing file '' @ fp @ '': '' @ e)\<rparr>)"

section \<open>The preprocessing service\<close>

record PreprocessingService =
  definedConceptIndex :: ConceptIndex
  usedConceptIndex :: ConceptIndex
  isIndexing :: bool

datatype exception = InvalidConceptName | TypeError

text \<open>
  Both indexes are plain objects created by \<^verbatim>\<open>{}\<close>, so reading a property that
  the object does not own finds the members of \<^verbatim>\<open>Object.prototype\<close>. None of them
  is an array: each is listed with its \<^verbatim>\<open>length\<close> property, which \<^verbatim>\<open>__proto__\<close>
  (the prototype object itself) does not have.
\<close>

definition objectPrototype :: "(string \<times> nat option) list" where
  "objectPrototype =
     [(''constructor'', Some 1), (''__defineGetter__'', Some 2),
      (''__defineSetter__'', Some 2), (''hasOwnProperty'', Some 1),
      (''__lookupGetter__'', Some 1), (''__lookupSetter__'', Some 1),
      (''isPrototypeOf'', Some 1), (''propertyIsEnumerable'', Some 1),
      (''toString'', Some 0), (''valueOf'', Some 0), (''__proto__'', None),
      (''toLocaleString'', Some 0)]"

datatype propertyValue = Occurrences "ConceptDefinition list" | Inherited "nat option"

text \<open>\<^verbatim>\<open>index[conceptName]\<close>; \<open>None\<close> is \<^verbatim>\<open>undefined\<close>.\<close>

definition getProperty :: "ConceptIndex \<Rightarrow> string \<Rightarrow> propertyValue option" where
  "getProperty index conceptName =
     (case index conceptName of
        Some occs \<Rightarrow> Some (Occurrences occs)
      | None \<Rightarrow> map_option Inherited (map_of objectPrototype conceptName))"

text \<open>
  The body of the two inner loops of \<^verbatim>\<open>buildConceptIndex\<close>: an \<^verbatim>\<open>undefined\<close> entry
  is set to the empty array first; every other value is truthy, and \<^verbatim>\<open>push\<close> on an
  inherited member throws a \<^verbatim>\<open>TypeError\<close>.
\<close>

definition pushConcept :: "ConceptDefinition \<Rightarrow> ConceptIndex \<Rightarrow> exception + ConceptIndex" where
  "pushConcept c index =
     (case getProperty index (concept c) of
        None \<Rightarrow> Inr (index(concept c \<mapsto> [c]))
      | Some (Occurrences occs) \<Rightarrow> Inr (index(concept c \<mapsto> occs @ [c]))
      | Some (Inherited n) \<Rightarrow> Inl TypeError)"

text \<open>One inner loop; the index is changed in place, so what was pushed before an
  exception stays.\<close>

fun pushConcepts ::
  "ConceptDefinition list \<Rightarrow> ConceptIndex \<Rightarrow> exception option \<times> ConceptIndex" where
  "pushConcepts [] index = (None, index)"
| "pushConcepts (c # cs) index =
     (case pushConcept c index of
        Inl e \<Rightarrow> (Some e, index)
      | Inr index' \<Rightarrow> pushConcepts cs index')"

text \<open>\<^verbatim>\<open>if (result.error)\<close>: a string is truthy when it is not empty.\<close>

definition hasError :: "FileProcessingResult \<Rightarrow> bool" where
  "hasError result \<longleftrightarrow> (case error result of None \<Rightarrow> False | Some msg \<Rightarrow> msg \<noteq> [])"

fun buildConceptIndex ::
  "FileProcessingResult list \<Rightarrow> PreprocessingService
     \<Rightarrow> exception option \<times> PreprocessingService" where
  "buildConceptIndex [] s = (None, s)"
| "buildConceptIndex (result # results) s =
     (if hasError result then buildConceptIndex results s
      else
        (case pushConcepts (definedConcepts result) (definedConceptIndex s) of
           (Some e, d) \<Rightarrow> (Some e, s\<lparr>definedConceptIndex := d\<rparr>)
         | (None, d) \<Rightarrow>
             (case pushConcepts (usedConcepts result) (usedConceptIndex s) of
                (Some e, u) \<Rightarrow> (Some e, s\<lparr>definedConceptIndex := d, usedConceptIndex := u\<rparr>)
              | (None, u) \<Rightarrow>
                  buildConceptIndex results
                    (s\<lparr>definedConceptIndex := d, usedConceptIndex := u\<rparr>))))"

subsection \<open>rebuildIndex\<close>

text \<open>
  \<^verbatim>\<open>rebuildIndex\<close> is an asynchronous function: it runs until it returns or reaches
  an \<^verbatim>\<open>await\<close>, where other callers may run. A call is therefore a task that is
  at its entry, waiting for the scanner, waiting in the loop over \<^verbatim>\<open>plainFiles\<close>
  (with the files still to process and the \<^verbatim>\<open>results\<close> so far), or has returned.
  What the \<^verbatim>\<open>catch\<close> block logs is not modelled; the \<^verbatim>\<open>finally\<close> block runs on
  every way out of the \<^verbatim>\<open>try\<close> block.
\<close>

datatype rebuildTask =
    Entry
  | AwaitScan
  | AwaitProcessFile "string list" "FileProcessingResult list"
  | Returned

fun rebuildStep ::
  "environment \<Rightarrow> rebuildTask \<times> PreprocessingService \<Rightarrow> rebuildTask \<times> PreprocessingService" where
  "rebuildStep env (Entry, s) =
     (if isIndexing s then (Returned, s)
      else (AwaitScan, s\<lparr>isIndexing := True, definedConceptIndex := Map.empty\<rparr>))"
| "rebuildStep env (AwaitScan, s) =
     (case scanWorkspace env of
        Inl e \<Rightarrow> (Returned, s\<lparr>isIndexing := False\<rparr>)
      | Inr plainFiles \<Rightarrow>
          if length plainFiles = 0 then (Returned, s\<lparr>isIndexing := False\<rparr>)
          else (AwaitProcessFile plainFiles [], s))"
| "rebuildStep env (AwaitProcessFile (fp # rest) results, s) =
     (AwaitProcessFile rest (results @ [processFile env fp]), s)"
| "rebuildStep env (AwaitProcessFile [] results, s) =
     (Returned, (snd (buildConceptIndex results s))\<lparr>isIndexing := False\<rparr>)"
| "rebuildStep env (Returned, s) = (Returned, s)"

text \<open>The files the scanner finds, none when it throws.\<close>

definition scannedFiles :: "environment \<Rightarrow> string list" where
  "scannedFiles env = (case scanWorkspace env of Inl e \<Rightarrow> [] | Inr plainFiles \<Rightarrow> plainFiles)"

text \<open>The steps a task has left at most.\<close>

fun stepsLeft :: "environment \<Rightarrow> rebuildTask \<Rightarrow> nat" where
  "stepsLeft env Entry = length (scannedFiles env) + 3"
| "stepsLeft env AwaitScan = length (scannedFiles env) + 2"
| "stepsLeft env (AwaitProcessFile rest results) = length rest + 1"
| "stepsLeft env Returned = 0"

text \<open>A task run to its end, with no other caller in between.\<close>

function rebuildRun ::
  "environment \<Rightarrow> rebuildTask \<times> PreprocessingService \<Rightarrow> PreprocessingService" where
  "rebuildRun env (task, s) =
     (if task = Returned then s else rebuildRun env (rebuildStep env (task, s)))"
  by pat_completeness auto
termination
proof (relation "measure (\<lambda>(env, task, s). stepsLeft env task)")
  show "wf (measure (\<lambda>(env, task, s). stepsLeft env task))"
    by simp
next
  fix env :: environment and task :: rebuildTask and s :: PreprocessingService
  assume "task \<noteq> Returned"
  then have "stepsLeft env (fst (rebuildStep env (task, s))) < stepsLeft env task"
  proof (cases task)
    case AwaitScan
    then show ?thesis
      by (simp add: scannedFiles_def split: sum.splits)
  next
    case (AwaitProcessFile rest results)
    then show ?thesis
      by (cases rest) simp_all
  qed simp_all
  then show "((env, rebuildStep env (task, s)), env, task, s)
               \<in> measure (\<lambda>(env, task, s). stepsLeft env task)"
    by (cases "rebuildStep env (task, s)") simp
qed

definition rebuildIndex :: "environment \<Rightarrow> PreprocessingService \<Rightarrow> PreprocessingService" where
  "rebuildIndex env s = rebuildRun env (Entry, s)"

subsection \<open>Lookups and the update of one file\<close>

text \<open>\<^verbatim>\<open>index[conceptName] || []\<close>.\<close>

definition findConceptDefinition :: "string \<Rightarrow> PreprocessingService \<Rightarrow> propertyValue" where
  "findConceptDefinition conceptName s =
     (case getProperty (definedConceptIndex s) conceptName of
        None \<Rightarrow> Occurrences []
      | Some v \<Rightarrow> v)"

definition findConceptUsage :: "string \<Rightarrow> PreprocessingService \<Rightarrow> propertyValue" where
  "findConceptUsage conceptName s =
     (case getProperty (usedConceptIndex s) conceptName of
        None \<Rightarrow> Occurrences []
      | Some v \<Rightarrow> v)"

text \<open>
  One \<^verbatim>\<open>for ... in\<close> loop of \<^verbatim>\<open>removeConceptsFromFile\<close>: every own key is
  visited once, its list is filtered, and the key is deleted when nothing is left.
  The loop treats each key on its own, so it is written key by key.
\<close>

definition removeFromIndex :: "string \<Rightarrow> ConceptIndex \<Rightarrow> ConceptIndex" where
  "removeFromIndex fp index =
     (\<lambda>conceptName.
        case index conceptName of
          None \<Rightarrow> None
        | Some occs \<Rightarrow>
            (let kept = filter (\<lambda>c. filePath c \<noteq> fp) occs
             in if length kept = 0 then None else Some kept))"

definition removeConceptsFromFile :: "string \<Rightarrow> PreprocessingService \<Rightarrow> PreprocessingService" where
  "removeConceptsFromFile fp s =
     s\<lparr>definedConceptIndex := removeFromIndex fp (definedConceptIndex s),
       usedConceptIndex := removeFromIndex fp (usedConceptIndex s)\<rparr>"

text \<open>\<^verbatim>\<open>filePath.endsWith('.plain')\<close>.\<close>

definition endsWithPlain :: "string \<Rightarrow> bool" where
  "endsWithPlain fp \<longleftrightarrow> 6 \<le> length fp \<and> drop (length fp - 6) fp = ''.plain''"

definition processFileUpdate ::
  "environment \<Rightarrow> string \<Rightarrow> PreprocessingService \<Rightarrow> exception option \<times> PreprocessingService" where
  "processFileUpdate env fp s =
     (if \<not> endsWithPlain fp then (None, s)
      else buildConceptIndex [processFile env fp] (removeConceptsFromFile fp s))"

section \<open>The rename provider\<close>

text \<open>
  A \<^verbatim>\<open>TextEdit.replace\<close> over a \<^verbatim>\<open>Range\<close>, and a \<^verbatim>\<open>WorkspaceEdit\<close> as the list of
  its entries, one per call of \<^verbatim>\<open>set\<close>, in the order of the calls.
\<close>

record TextEdit =
  startLine :: nat
  startCharacter :: int
  endLine :: nat
  endCharacter :: int
  newText :: string

type_synonym WorkspaceEdit = "(string \<times> TextEdit list) list"

text \<open>\<^verbatim>\<open>/^[+\-\.0-9A-Z_a-z]+$/.test(newName)\<close>.\<close>

definition validNewName :: "string \<Rightarrow> bool" where
  "validNewName newName \<longleftrightarrow> newName \<noteq> [] \<and> list_all isConceptChar newName"

text \<open>
  The loop that fills the \<^verbatim>\<open>Map\<close> \<^verbatim>\<open>fileGroups\<close>; a \<^verbatim>\<open>Map\<close> keeps its keys in
  the order of their insertion, so it is a list of pairs.
\<close>

definition groupPush ::
  "ConceptDefinition \<Rightarrow> (string \<times> ConceptDefinition list) list
     \<Rightarrow> (string \<times> ConceptDefinition list) list" where
  "groupPush occurrence fileGroups =
     map (\<lambda>(fp, occs). if fp = filePath occurrence then (fp, occs @ [occurrence]) else (fp, occs))
       (if filePath occurrence \<in> fst ` set fileGroups then fileGroups
        else fileGroups @ [(filePath occurrence, [])])"

fun groupByFile ::
  "ConceptDefinition list \<Rightarrow> (string \<times> ConceptDefinition list) list
     \<Rightarrow> (string \<times> ConceptDefinition list) list" where
  "groupByFile [] fileGroups = fileGroups"
| "groupByFile (occurrence # rest) fileGroups = groupByFile rest (groupPush occurrence fileGroups)"

text \<open>The edit made for one occurrence.\<close>

definition renameEdit :: "string \<Rightarrow> string \<Rightarrow> ConceptDefinition \<Rightarrow> TextEdit" where
  "renameEdit oldName newName occurrence =
     \<lparr>startLine = line occurrence,
      startCharacter = character occurrence + 1,
      endLine = line occurrence,
      endCharacter = character occurrence + 1 + int (length oldName),
      newText = newName\<rparr>"

text \<open>
  \<^verbatim>\<open>provideRenameEdits\<close>, given the word at the position (\<open>None\<close> when there is no
  word range), the new name and the optional preprocessing service. \<open>Inl\<close> is an
  exception thrown, \<open>Inr None\<close> the result \<^verbatim>\<open>undefined\<close>. A value found on the
  prototype has a \<^verbatim>\<open>length\<close> of its own and cannot be iterated.
\<close>

definition provideRenameEdits ::
  "string option \<Rightarrow> string \<Rightarrow> PreprocessingService option \<Rightarrow> exception + WorkspaceEdit option" where
  "provideRenameEdits word newName preprocessingService =
     (case word of
        None \<Rightarrow> Inr None
      | Some oldName \<Rightarrow>
          if \<not> validNewName newName then Inl InvalidConceptName
          else
            (case preprocessingService of
               None \<Rightarrow> Inr None
             | Some s \<Rightarrow>
                 (case findConceptUsage oldName s of
                    Inherited n \<Rightarrow> if n = Some 0 then Inr None else Inl TypeError
                  | Occurrences usages \<Rightarrow>
                      if length usages = 0 then Inr None
                      else Inr (Some (map (\<lambda>(fp, occurrences).
                                             (fp, map (renameEdit oldName newName) occurrences))
                                        (groupByFile usages []))))))"

section \<open>Notions used to state the properties\<close>

text \<open>
  The values of \<^verbatim>\<open>inDefinitionsSection\<close> and \<^verbatim>\<open>currentSection\<close> after the loop of
  \<^verbatim>\<open>extractConceptsFromDefinitions\<close> has gone through the given lines: the section
  that the next line lies in.
\<close>

fun sectionState :: "bool \<Rightarrow> string \<Rightarrow> string list \<Rightarrow> bool \<times> string" where
  "sectionState inDefinitionsSection currentSection [] =
     (inDefinitionsSection, currentSection)"
| "sectionState inDefinitionsSection currentSection (l # ls) =
     (if isSectionHeader (trim l) then
        (let currentSection' = headerSection (trim l);
             inDefinitionsSection' =
               (if currentSection' \<noteq> ''definitions'' \<and> inDefinitionsSection then False
                else currentSection' = ''definitions'')
         in sectionState inDefinitionsSection' currentSection' ls)
      else sectionState inDefinitionsSection currentSection ls)"

text \<open>A line of a document lies inside a definitions section.\<close>

definition inDefinitions :: "string list \<Rightarrow> bool" where
  "inDefinitions linesBefore \<longleftrightarrow> fst (sectionState False [] linesBefore)"

text \<open>
  The definitions of a document in the words of the specification: the accepted
  tokens of a line are the colon-delimited tokens of its list item that match the
  alphabet of concept names, in their order and as often as they stand there; a line
  that lies inside a definitions section and is no section marker gives one
  occurrence for each of its accepted tokens, and any other line gives none.
\<close>

definition acceptedTokens :: "string \<Rightarrow> string list" where
  "acceptedTokens l =
     filter validConcept
       (case definitionMatch (trim l) of
          None \<Rightarrow> []
        | Some fullMatch \<Rightarrow> conceptCandidates fullMatch)"

definition lineOccurrences :: "string \<Rightarrow> string list \<Rightarrow> string \<Rightarrow> ConceptDefinition list" where
  "lineOccurrences fp linesBefore l =
     (if inDefinitions linesBefore \<and> \<not> isSectionHeader (trim l) then
        map (\<lambda>token. \<lparr>concept = slice1 token, filePath = fp, line = length linesBefore,
                         character = indexOf l token, content = Some l,
                         sectionName = Some ''definitions''\<rparr>)
          (acceptedTokens l)
      else [])"

text \<open>
  A definition list item as the specification writes it, \<^verbatim>\<open>- :name1:, :name2:, ...\<close>:
  the names between colons, separated by a comma and a space.
\<close>

fun listItemTail :: "string list \<Rightarrow> string" where
  "listItemTail [] = []"
| "listItemTail (name # names) = '', :'' @ name @ '':'' @ listItemTail names"

fun listItem :: "string list \<Rightarrow> string" where
  "listItem [] = []"
| "listItem (name # names) = ''- :'' @ name @ '':'' @ listItemTail names"

text \<open>
  The rename plan in the words of the specification: the documents of the usage
  occurrences, each once, in the order of their first occurrence; for each document
  one batch, with one replacement for each of its occurrences, from one character
  after the recorded column over the length of the old name.
\<close>

fun documentsOf :: "string list \<Rightarrow> string list" where
  "documentsOf [] = []"
| "documentsOf (p # ps) = p # documentsOf (filter (\<lambda>q. q \<noteq> p) ps)"

definition renamePlan :: "string \<Rightarrow> string \<Rightarrow> ConceptDefinition list \<Rightarrow> WorkspaceEdit" where
  "renamePlan oldName newName usages =
     map (\<lambda>fp.
            (fp, map (\<lambda>occ. \<lparr>startLine = line occ,
                              startCharacter = character occ + 1,
                              endLine = line occ,
                              endCharacter = character occ + 1 + int (length oldName),
                              newText = newName\<rparr>)
                   (filter (\<lambda>occ. filePath occ = fp) usages)))
       (documentsOf (map filePath usages))"

section \<open>Removing the concepts of a file\<close>

lemma removeFromIndex_not_empty: "removeFromIndex fp index name \<noteq> Some []"
  by (simp add: removeFromIndex_def Let_def split: option.splits)

lemma removeFromIndex_deleted:
  "index name = Some occs \<Longrightarrow> filter (\<lambda>c. filePath c \<noteq> fp) occs = [] \<Longrightarrow>
     removeFromIndex fp index name = None"
  by (simp add: removeFromIndex_def)

text \<open>
  Claim C7. After \<^verbatim>\<open>removeConceptsFromFile\<close>, in the index of definitions and in
  the index of usages alike: a concept name whose occurrences all came from the
  removed file is no longer a key, and no name is bound to an empty list, whatever
  the index held before.
\<close>

theorem removeConceptsFromFile_deletes_empty_keys:
  "(definedConceptIndex s name = Some occs \<and> filter (\<lambda>c. filePath c \<noteq> fp) occs = []
      \<longrightarrow> definedConceptIndex (removeConceptsFromFile fp s) name = None)
   \<and> (usedConceptIndex s name = Some occs \<and> filter (\<lambda>c. filePath c \<noteq> fp) occs = []
      \<longrightarrow> usedConceptIndex (removeConceptsFromFile fp s) name = None)
   \<and> definedConceptIndex (removeConceptsFromFile fp s) name \<noteq> Some []
   \<and> usedConceptIndex (removeConceptsFromFile fp s) name \<noteq> Some []"
  by (simp add: removeConceptsFromFile_def removeFromIndex_not_empty removeFromIndex_deleted)

theorem removeConceptsFromFile_deletes_empty_keys_witness:
  "definedConceptIndex (removeConceptsFromFile ''a.plain''
      \<lparr>definedConceptIndex = [''x'' \<mapsto> [\<lparr>concept = ''x'', filePath = ''a.plain'', line = 1,
           character = 2, content = Some ''- :x:'', sectionName = Some ''definitions''\<rparr>]],
       usedConceptIndex = [''x'' \<mapsto> [\<lparr>concept = ''x'', filePath = ''a.plain'', line = 1,
           character = 2, content = Some ''- :x:'', sectionName = Some ''definitions''\<rparr>]],
       isIndexing = False\<rparr>) ''x'' = None
   \<and> usedConceptIndex (removeConceptsFromFile ''a.plain''
      \<lparr>definedConceptIndex = [''x'' \<mapsto> [\<lparr>concept = ''x'', filePath = ''a.plain'', line = 1,
           character = 2, content = Some ''- :x:'', sectionName = Some ''definitions''\<rparr>]],
       usedConceptIndex = [''x'' \<mapsto> [\<lparr>concept = ''x'', filePath = ''a.plain'', line = 1,
           character = 2, content = Some ''- :x:'', sectionName = Some ''definitions''\<rparr>]],
       isIndexing = False\<rparr>) ''x'' = None"
  using removeConceptsFromFile_deletes_empty_keys
    [of "\<lparr>definedConceptIndex = [''x'' \<mapsto> [\<lparr>concept = ''x'', filePath = ''a.plain'', line = 1,
           character = 2, content = Some ''- :x:'', sectionName = Some ''definitions''\<rparr>]],
       usedConceptIndex = [''x'' \<mapsto> [\<lparr>concept = ''x'', filePath = ''a.plain'', line = 1,
           character = 2, content = Some ''- :x:'', sectionName = Some ''definitions''\<rparr>]],
       isIndexing = False\<rparr>" "''x''"
       "[\<lparr>concept = ''x'', filePath = ''a.plain'', line = 1,
           character = 2, content = Some ''- :x:'', sectionName = Some ''definitions''\<rparr>]"
       "''a.plain''"]
  by simp

section \<open>Rebuilding the index\<close>

declare rebuildRun.simps [simp del]

lemma rebuildRun_Returned: "rebuildRun env (Returned, s) = s"
  by (simp add: rebuildRun.simps)

lemma rebuildRun_step:
  "task \<noteq> Returned \<Longrightarrow> rebuildRun env (task, s) = rebuildRun env (rebuildStep env (task, s))"
  by (simp add: rebuildRun.simps)

lemma rebuildRun_process:
  "rebuildRun env (AwaitProcessFile files results, s) =
     (snd (buildConceptIndex (results @ map (processFile env) files) s))\<lparr>isIndexing := False\<rparr>"
proof (induction files arbitrary: results)
  case Nil
  show ?case
    by (simp add: rebuildRun_step [of "AwaitProcessFile [] results"] rebuildRun_Returned)
next
  case (Cons fp rest)
  have "rebuildRun env (AwaitProcessFile (fp # rest) results, s)
          = rebuildRun env (AwaitProcessFile rest (results @ [processFile env fp]), s)"
    by (simp add: rebuildRun_step [of "AwaitProcessFile (fp # rest) results"])
  then show ?case
    by (simp add: Cons.IH)
qed

lemma rebuildRun_scan:
  "rebuildRun env (AwaitScan, s) =
     (case scanWorkspace env of
        Inl e \<Rightarrow> s\<lparr>isIndexing := False\<rparr>
      | Inr plainFiles \<Rightarrow>
          if plainFiles = [] then s\<lparr>isIndexing := False\<rparr>
          else (snd (buildConceptIndex (map (processFile env) plainFiles) s))
                 \<lparr>isIndexing := False\<rparr>)"
  by (simp add: rebuildRun_step [of AwaitScan] rebuildRun_Returned rebuildRun_process
           split: sum.splits)

lemma rebuildIndex_eq:
  "rebuildIndex env s =
     (if isIndexing s then s
      else rebuildRun env (AwaitScan, s\<lparr>isIndexing := True, definedConceptIndex := Map.empty\<rparr>))"
  by (simp add: rebuildIndex_def rebuildRun_step [of Entry] rebuildRun_Returned)

lemma isIndexing_after_scan: "\<not> isIndexing (rebuildRun env (AwaitScan, s))"
  by (simp add: rebuildRun_scan split: sum.splits)

lemma rebuildStep_decreases:
  "task \<noteq> Returned \<Longrightarrow> stepsLeft env (fst (rebuildStep env (task, s))) < stepsLeft env task"
proof (cases task)
  case AwaitScan
  then show ?thesis
    by (simp add: scannedFiles_def split: sum.splits)
next
  case (AwaitProcessFile rest results)
  then show ?thesis
    by (cases rest) simp_all
qed simp_all

lemma stepsLeft_Returned: "stepsLeft env task = 0 \<longleftrightarrow> task = Returned"
  by (cases task) simp_all

lemma rebuildRun_steps:
  "stepsLeft env task \<le> n \<Longrightarrow>
     (rebuildStep env ^^ n) (task, s) = (Returned, rebuildRun env (task, s))"
proof (induction n arbitrary: task s)
  case 0
  then have "task = Returned"
    by (simp add: stepsLeft_Returned)
  then show ?case
    by (simp add: rebuildRun_Returned)
next
  case (Suc n)
  show ?case
  proof (cases "task = Returned")
    case True
    then have "stepsLeft env task \<le> n" by simp
    from Suc.IH [OF this] True show ?thesis
      by (simp add: funpow_swap1)
  next
    case False
    obtain task' s' where step: "rebuildStep env (task, s) = (task', s')"
      by (cases "rebuildStep env (task, s)")
    with rebuildStep_decreases [OF False, of env s] Suc.prems have "stepsLeft env task' \<le> n"
      by simp
    from Suc.IH [OF this, of s'] step False show ?thesis
      by (simp add: funpow_swap1 rebuildRun_step)
  qed
qed

lemma rebuildIndex_steps:
  "(rebuildStep env ^^ (length (scannedFiles env) + 3)) (Entry, s) = (Returned, rebuildIndex env s)"
  using rebuildRun_steps [of env Entry "length (scannedFiles env) + 3" s]
  by (simp add: rebuildIndex_def)

text \<open>
  Claim C9. A call of \<^verbatim>\<open>rebuildIndex\<close> that finds \<^verbatim>\<open>isIndexing\<close> set returns at
  once and leaves the service as it is. A call that finds it clear sets it in its
  first step, before the scanner is called. While the call is under way the flag
  stays set, and the step that returns clears it. Every call returns, after three
  steps and one for each file found at most. So a call that found the flag clear
  leaves it clear when it has returned, for every file system: also when the scanner
  throws and when \<^verbatim>\<open>buildConceptIndex\<close> throws.
\<close>

theorem rebuildIndex_busy_flag:
  "(isIndexing s \<longrightarrow> rebuildStep env (Entry, s) = (Returned, s) \<and> rebuildIndex env s = s)
   \<and> (\<not> isIndexing s \<longrightarrow>
        rebuildStep env (Entry, s)
          = (AwaitScan, s\<lparr>isIndexing := True, definedConceptIndex := Map.empty\<rparr>))
   \<and> (task \<noteq> Entry \<and> task \<noteq> Returned \<and> isIndexing s \<longrightarrow>
        isIndexing (snd (rebuildStep env (task, s)))
          = (fst (rebuildStep env (task, s)) \<noteq> Returned))
   \<and> (rebuildStep env ^^ (length (scannedFiles env) + 3)) (Entry, s)
        = (Returned, rebuildIndex env s)
   \<and> (\<not> isIndexing s \<longrightarrow> \<not> isIndexing (rebuildIndex env s))"
proof -
  note returns = rebuildIndex_steps [of env s]
  have skip: "rebuildStep env (Entry, s) = (Returned, s) \<and> rebuildIndex env s = s"
    if "isIndexing s"
    using that by (simp add: rebuildIndex_eq)
  have start: "rebuildStep env (Entry, s)
          = (AwaitScan, s\<lparr>isIndexing := True, definedConceptIndex := Map.empty\<rparr>)"
    if "\<not> isIndexing s"
    using that by simp
  have held: "isIndexing (snd (rebuildStep env (task, s)))
          = (fst (rebuildStep env (task, s)) \<noteq> Returned)"
    if a: "task \<noteq> Entry \<and> task \<noteq> Returned \<and> isIndexing s"
  proof (cases task)
    case (AwaitProcessFile files results)
    with a show ?thesis by (cases files) simp_all
  qed (use a in \<open>simp_all split: sum.splits\<close>)
  have released: "\<not> isIndexing (rebuildIndex env s)" if "\<not> isIndexing s"
    using that by (simp add: rebuildIndex_eq isIndexing_after_scan)
  from skip start held returns released show ?thesis
    by blast
qed

theorem rebuildIndex_busy_flag_witness:
  "rebuildIndex \<lparr>scanWorkspace = Inl ''EACCES'', readFileSync = (\<lambda>fp. Inl ''ENOENT'')\<rparr>
     \<lparr>definedConceptIndex = Map.empty, usedConceptIndex = Map.empty, isIndexing = True\<rparr>
     = \<lparr>definedConceptIndex = Map.empty, usedConceptIndex = Map.empty, isIndexing = True\<rparr>
   \<and> \<not> isIndexing
        (rebuildIndex \<lparr>scanWorkspace = Inl ''EACCES'', readFileSync = (\<lambda>fp. Inl ''ENOENT'')\<rparr>
           \<lparr>definedConceptIndex = Map.empty, usedConceptIndex = Map.empty,
            isIndexing = False\<rparr>)
   \<and> isIndexing (snd (rebuildStep
        \<lparr>scanWorkspace = Inr [''a.plain''], readFileSync = (\<lambda>fp. Inl ''ENOENT'')\<rparr>
        (AwaitScan, \<lparr>definedConceptIndex = Map.empty, usedConceptIndex = Map.empty,
            isIndexing = True\<rparr>)))"
  using rebuildIndex_busy_flag
    [of "\<lparr>definedConceptIndex = Map.empty, usedConceptIndex = Map.empty, isIndexing = True\<rparr>"
        "\<lparr>scanWorkspace = Inl ''EACCES'', readFileSync = (\<lambda>fp. Inl ''ENOENT'')\<rparr>" Entry]
    rebuildIndex_busy_flag
    [of "\<lparr>definedConceptIndex = Map.empty, usedConceptIndex = Map.empty, isIndexing = False\<rparr>"
        "\<lparr>scanWorkspace = Inl ''EACCES'', readFileSync = (\<lambda>fp. Inl ''ENOENT'')\<rparr>" Entry]
    rebuildIndex_busy_flag
    [of "\<lparr>definedConceptIndex = Map.empty, usedConceptIndex = Map.empty, isIndexing = True\<rparr>"
        "\<lparr>scanWorkspace = Inr [''a.plain''], readFileSync = (\<lambda>fp. Inl ''ENOENT'')\<rparr>"
        AwaitScan]
  by simp

text \<open>
  Claim C1. \<^verbatim>\<open>rebuildIndex\<close> resets \<^verbatim>\<open>definedConceptIndex\<close> only. With one file
  \<^verbatim>\<open>a.plain\<close> in the workspace, whose text \<^verbatim>\<open>x\<close> holds no concept, a usage
  occurrence of \<^verbatim>\<open>old\<close> recorded earlier for the file \<^verbatim>\<open>gone.plain\<close> is still in
  the index of usages after the rebuild.
\<close>

theorem rebuildIndex_keeps_old_usages:
  "usedConceptIndex
     (rebuildIndex
        \<lparr>scanWorkspace = Inr [''a.plain''], readFileSync = (\<lambda>fp. Inr ''x'')\<rparr>
        \<lparr>definedConceptIndex = Map.empty,
         usedConceptIndex =
           [''old'' \<mapsto> [\<lparr>concept = ''old'', filePath = ''gone.plain'', line = 2, character = 5,
                          content = Some ''  see :old:'', sectionName = Some []\<rparr>]],
         isIndexing = False\<rparr>) ''old''
   = Some [\<lparr>concept = ''old'', filePath = ''gone.plain'', line = 2, character = 5,
            content = Some ''  see :old:'', sectionName = Some []\<rparr>]"
  by code_simp

section \<open>Files that cannot be read\<close>

lemma processFile_read_error:
  "readFileSync env fp = Inl e \<Longrightarrow>
     processFile env fp =
       \<lparr>resultFilePath = fp, definedConcepts = [], usedConcepts = [],
        error = Some (''Error processing file '' @ fp @ '': '' @ e)\<rparr>"
  by (simp add: processFile_def)

lemma hasError_read_error: "readFileSync env fp = Inl e \<Longrightarrow> hasError (processFile env fp)"
  by (simp add: processFile_read_error hasError_def)

lemma buildConceptIndex_skips_error:
  "hasError r \<Longrightarrow> buildConceptIndex (rs1 @ r # rs2) s = buildConceptIndex (rs1 @ rs2) s"
  by (induction rs1 arbitrary: s) (simp_all split: prod.splits option.splits)

lemma processFile_scan_irrelevant:
  "processFile (env\<lparr>scanWorkspace := x\<rparr>) = processFile env"
  by (rule ext) (simp add: processFile_def)

text \<open>
  Claim C8. When \<^verbatim>\<open>readFileSync\<close> throws for a file, \<^verbatim>\<open>processFile\<close> returns a
  result with no defined and no used concepts and with an error message. Such a
  result, wherever it stands among the results, changes nothing in
  \<^verbatim>\<open>buildConceptIndex\<close>: neither index, nor the exception if there is one. A
  rebuild of a workspace that holds the file ends in the state that the rebuild of
  the workspace without the file ends in, so the other files are processed all the
  same.
\<close>

theorem read_failure_contained:
  assumes "readFileSync env fp = Inl e"
  shows "processFile env fp =
           \<lparr>resultFilePath = fp, definedConcepts = [], usedConcepts = [],
            error = Some (''Error processing file '' @ fp @ '': '' @ e)\<rparr>
         \<and> buildConceptIndex (before @ processFile env fp # after) s
             = buildConceptIndex (before @ after) s
         \<and> (scanWorkspace env = Inr (files1 @ fp # files2) \<longrightarrow>
              rebuildIndex env s = rebuildIndex (env\<lparr>scanWorkspace := Inr (files1 @ files2)\<rparr>) s)"
proof (intro conjI impI)
  show "processFile env fp =
           \<lparr>resultFilePath = fp, definedConcepts = [], usedConcepts = [],
            error = Some (''Error processing file '' @ fp @ '': '' @ e)\<rparr>"
    using assms by (rule processFile_read_error)
  show "buildConceptIndex (before @ processFile env fp # after) s
             = buildConceptIndex (before @ after) s"
    using assms by (simp add: buildConceptIndex_skips_error hasError_read_error)
next
  assume scan: "scanWorkspace env = Inr (files1 @ fp # files2)"
  have "buildConceptIndex (map (processFile env) (files1 @ fp # files2)) t
          = buildConceptIndex (map (processFile env) (files1 @ files2)) t" for t
    using assms by (simp add: buildConceptIndex_skips_error hasError_read_error)
  then show "rebuildIndex env s = rebuildIndex (env\<lparr>scanWorkspace := Inr (files1 @ files2)\<rparr>) s"
    using scan by (simp add: rebuildIndex_eq rebuildRun_scan processFile_scan_irrelevant)
qed

theorem read_failure_contained_witness:
  "rebuildIndex
     \<lparr>scanWorkspace = Inr [''a.plain'', ''gone.plain''],
      readFileSync = (\<lambda>fp. if fp = ''a.plain'' then Inr ''x'' else Inl ''ENOENT'')\<rparr>
     \<lparr>definedConceptIndex = Map.empty, usedConceptIndex = Map.empty, isIndexing = False\<rparr>
   = rebuildIndex
     \<lparr>scanWorkspace = Inr [''a.plain''],
      readFileSync = (\<lambda>fp. if fp = ''a.plain'' then Inr ''x'' else Inl ''ENOENT'')\<rparr>
     \<lparr>definedConceptIndex = Map.empty, usedConceptIndex = Map.empty, isIndexing = False\<rparr>"
  using read_failure_contained
    [of "\<lparr>scanWorkspace = Inr [''a.plain'', ''gone.plain''],
          readFileSync = (\<lambda>fp. if fp = ''a.plain'' then Inr ''x'' else Inl ''ENOENT'')\<rparr>"
        "''gone.plain''" "''ENOENT''" "[]" "[]"
        "\<lparr>definedConceptIndex = Map.empty, usedConceptIndex = Map.empty, isIndexing = False\<rparr>"
        "[''a.plain'']" "[]"]
  by simp

section \<open>The extraction of definitions\<close>

subsection \<open>The first occurrence of a string\<close>

lemma indexOfFrom_first:
  "take (length needle) (drop j hay) = needle \<Longrightarrow>
     \<exists>k\<le>j. indexOfFrom i needle hay = int (i + k)
           \<and> take (length needle) (drop k hay) = needle
           \<and> (\<forall>m<k. take (length needle) (drop m hay) \<noteq> needle)"
proof (induction hay arbitrary: i j)
  case Nil
  then have "needle = []" by simp
  then show ?case by simp
next
  case (Cons c cs)
  show ?case
  proof (cases "take (length needle) (c # cs) = needle")
    case True
    then have "indexOfFrom i needle (c # cs) = int (i + 0)
           \<and> take (length needle) (drop 0 (c # cs)) = needle
           \<and> (\<forall>m<0. take (length needle) (drop m (c # cs)) \<noteq> needle)"
      by simp
    then show ?thesis by blast
  next
    case False
    with Cons.prems obtain j' where j: "j = Suc j'"
      by (cases j) auto
    with Cons.prems have "take (length needle) (drop j' cs) = needle"
      by simp
    from Cons.IH [OF this, of "Suc i"] obtain k where k: "k \<le> j'"
      "indexOfFrom (Suc i) needle cs = int (Suc i + k)"
      "take (length needle) (drop k cs) = needle"
      "\<forall>m<k. take (length needle) (drop m cs) \<noteq> needle"
      by blast
    have "\<forall>m<Suc k. take (length needle) (drop m (c # cs)) \<noteq> needle"
    proof (intro allI impI)
      fix m assume "m < Suc k"
      then show "take (length needle) (drop m (c # cs)) \<noteq> needle"
        using False k(4) by (cases m) auto
    qed
    with k j False have "Suc k \<le> j \<and> indexOfFrom i needle (c # cs) = int (i + Suc k)
           \<and> take (length needle) (drop (Suc k) (c # cs)) = needle
           \<and> (\<forall>m<Suc k. take (length needle) (drop m (c # cs)) \<noteq> needle)"
      by simp
    then show ?thesis by blast
  qed
qed

lemma indexOf_first:
  assumes "hay = a @ needle @ b"
  shows "\<exists>k. indexOf hay needle = int k
           \<and> take (length needle) (drop k hay) = needle
           \<and> (\<forall>m<k. take (length needle) (drop m hay) \<noteq> needle)"
proof -
  from assms have "take (length needle) (drop (length a) hay) = needle"
    by simp
  from indexOfFrom_first [OF this, of 0] show ?thesis
    by (auto simp: indexOf_def)
qed

subsection \<open>Where the tokens of a line stand\<close>

lemma tokenAt_Some:
  assumes "tokenAt C s = Some body"
  shows "\<exists>r. s = CHR '':'' # body @ CHR '':'' # r"
proof -
  from assms obtain cs where s: "s = CHR '':'' # cs" and body: "body = takeWhile C cs"
    and colon: "take 1 (drop (length body) cs) = '':''"
    by (auto simp: tokenAt_def Let_def split: list.splits if_splits)
  from colon obtain r where "drop (length body) cs = CHR '':'' # r"
    by (cases "drop (length body) cs") auto
  moreover have "cs = take (length body) cs @ drop (length body) cs"
    by simp
  moreover have "take (length body) cs = body"
    unfolding body by (metis takeWhile_dropWhile_id append_eq_conv_conj)
  ultimately have "cs = body @ CHR '':'' # r"
    by metis
  with s show ?thesis by simp
qed

lemma matchAll_occurs:
  "(i, body) \<in> set (matchAll C k s) \<Longrightarrow>
     \<exists>a r. s = a @ CHR '':'' # body @ CHR '':'' # r \<and> i = k + length a"
proof (induction C k s rule: matchAll.induct)
  case (1 C i)
  then show ?case by simp
next
  case (2 C k c cs)
  show ?case
  proof (cases "tokenAt C (c # cs)")
    case None
    with 2 obtain a r where "cs = a @ CHR '':'' # body @ CHR '':'' # r" "i = Suc k + length a"
      by auto
    then have "c # cs = (c # a) @ CHR '':'' # body @ CHR '':'' # r \<and> i = k + length (c # a)"
      by simp
    then show ?thesis by blast
  next
    case (Some b)
    from tokenAt_Some [OF Some] obtain r0 where r0: "c # cs = CHR '':'' # b @ CHR '':'' # r0"
      by blast
    from "2.prems" Some consider "(i, body) = (k, b)"
      | "(i, body) \<in> set (matchAll C (k + length b + 2) (drop (length b + 1) cs))"
      by auto
    then show ?thesis
    proof cases
      case 1
      with r0 have "c # cs = [] @ CHR '':'' # body @ CHR '':'' # r0 \<and> i = k + length ([]::string)"
        by simp
      then show ?thesis by blast
    next
      case 2
      from "2.IH"(2) [OF Some 2] obtain a r where
        ar: "drop (length b + 1) cs = a @ CHR '':'' # body @ CHR '':'' # r"
          "i = k + length b + 2 + length a"
        by blast
      from r0 have cs: "cs = b @ CHR '':'' # r0" by simp
      then have "drop (length b + 1) cs = r0" by simp
      with ar cs r0 have "c # cs = (CHR '':'' # b @ CHR '':'' # a) @ CHR '':'' # body @ CHR '':'' # r
          \<and> i = k + length (CHR '':'' # b @ CHR '':'' # a)"
        by simp
      then show ?thesis by blast
    qed
  qed
qed

lemma trim_occurs: "\<exists>a b. l = a @ trim l @ b"
proof -
  let ?d = "dropWhile isWhiteSpace l"
  have "l = takeWhile isWhiteSpace l @ ?d" by simp
  moreover have "rev ?d = takeWhile isWhiteSpace (rev ?d) @ dropWhile isWhiteSpace (rev ?d)"
    by simp
  then have "?d = trim l @ rev (takeWhile isWhiteSpace (rev ?d))"
    unfolding trim_def by (metis rev_append rev_rev_ident)
  ultimately have "l = takeWhile isWhiteSpace l @ trim l @ rev (takeWhile isWhiteSpace (rev ?d))"
    by simp
  then show ?thesis by blast
qed

lemma definitionMatch_prefix: "definitionMatch t = Some fullMatch \<Longrightarrow> \<exists>r. t = fullMatch @ r"
  by (clarsimp simp: definitionMatch_def split: list.splits if_splits option.splits)
     (metis append_take_drop_id)

lemma candidate_occurs:
  assumes "definitionMatch (trim l) = Some fullMatch"
    and "candidate \<in> set (conceptCandidates fullMatch)"
  shows "\<exists>body a b. candidate = CHR '':'' # body @ '':'' \<and> l = a @ candidate @ b"
proof -
  from assms(2) obtain i body where ib: "(i, body) \<in> set (matchAll notColon 0 fullMatch)"
    and cand: "candidate = CHR '':'' # body @ '':''"
    by (auto simp: conceptCandidates_def)
  from matchAll_occurs [OF ib] obtain a1 r1 where "fullMatch = a1 @ CHR '':'' # body @ CHR '':'' # r1"
    by blast
  with cand have f: "fullMatch = a1 @ candidate @ r1" by simp
  from definitionMatch_prefix [OF assms(1)] obtain r2 where t: "trim l = fullMatch @ r2" ..
  from trim_occurs obtain a3 b3 where "l = a3 @ trim l @ b3" by blast
  with t f have "l = (a3 @ a1) @ candidate @ (r1 @ r2 @ b3)"
    by simp
  with cand show ?thesis by blast
qed

lemma slice1_token [simp]: "slice1 (CHR '':'' # body @ '':'') = body"
  by (simp add: slice1_def)

subsection \<open>What the loops emit\<close>

lemma pushCandidates_member:
  "occ \<in> set (pushCandidates fp n sect l candidates) \<Longrightarrow>
     \<exists>candidate \<in> set candidates.
        occ = \<lparr>concept = slice1 candidate, filePath = fp, line = n,
               character = indexOf l candidate, content = Some l, sectionName = Some sect\<rparr>"
  by (induction candidates) (auto split: if_splits)

lemma lineDefinitions_member:
  assumes "occ \<in> set (lineDefinitions fp n sect l)"
  shows "line occ = n \<and> filePath occ = fp \<and> content occ = Some l \<and> sectionName occ = Some sect
         \<and> character occ = indexOf l (CHR '':'' # concept occ @ '':'')
         \<and> (\<exists>a b. l = a @ (CHR '':'' # concept occ @ '':'') @ b)"
proof -
  from assms obtain fullMatch where m: "definitionMatch (trim l) = Some fullMatch"
    and occ: "occ \<in> set (pushCandidates fp n sect l (conceptCandidates fullMatch))"
    by (cases "definitionMatch (trim l)") (auto simp: lineDefinitions_def)
  from pushCandidates_member [OF occ] obtain candidate where
    c: "candidate \<in> set (conceptCandidates fullMatch)"
    and o: "occ = \<lparr>concept = slice1 candidate, filePath = fp, line = n,
               character = indexOf l candidate, content = Some l, sectionName = Some sect\<rparr>"
    by blast
  from candidate_occurs [OF m c] obtain body a b where
    "candidate = CHR '':'' # body @ '':''" "l = a @ candidate @ b"
    by blast
  with o show ?thesis by auto
qed

lemma definitionsLoop_member:
  "occ \<in> set (definitionsLoop fp i inDef sect ls) \<Longrightarrow>
     \<exists>j sect'. j < length ls \<and> line occ = i + j
        \<and> occ \<in> set (lineDefinitions fp (i + j) sect' (ls ! j))"
proof (induction ls arbitrary: i inDef sect)
  case Nil
  then show ?case by simp
next
  case (Cons l ls)
  from Cons.prems consider
      (here) "occ \<in> set (lineDefinitions fp i sect l)"
    | (later) inDef' sect' where "occ \<in> set (definitionsLoop fp (Suc i) inDef' sect' ls)"
    by (auto simp: Let_def split: if_splits)
  then show ?case
  proof cases
    case here
    then have "line occ = i"
      using lineDefinitions_member by blast
    with here have "0 < length (l # ls) \<and> line occ = i + 0
        \<and> occ \<in> set (lineDefinitions fp (i + 0) sect ((l # ls) ! 0))"
      by simp
    then show ?thesis by blast
  next
    case later
    from Cons.IH [OF later] obtain j sect'' where "j < length ls" "line occ = Suc i + j"
      "occ \<in> set (lineDefinitions fp (Suc i + j) sect'' (ls ! j))"
      by blast
    then have "Suc j < length (l # ls) \<and> line occ = i + Suc j
        \<and> occ \<in> set (lineDefinitions fp (i + Suc j) sect'' ((l # ls) ! Suc j))"
      by simp
    then show ?thesis by blast
  qed
qed

text \<open>
  Claim C10. The column recorded for a definition is found by searching the raw line
  for the token, colons included: for every occurrence that
  \<^verbatim>\<open>extractConceptsFromDefinitions\<close> emits, the line index is a line of the
  document, the column is \<^verbatim>\<open>indexOf\<close> of the token in that line, the token stands
  at that column and at no column before it, and every other occurrence emitted for
  the same line and the same name records the same column. A token repeated on a
  line is thus recorded at the column of its first occurrence each time.
\<close>

theorem definition_column_is_first_occurrence:
  assumes "occ \<in> set (extractConceptsFromDefinitions fp text)"
  shows "line occ < length (split_newline text)
         \<and> character occ
             = indexOf (split_newline text ! line occ) (CHR '':'' # concept occ @ '':'')
         \<and> (\<exists>k. character occ = int k
               \<and> take (length (CHR '':'' # concept occ @ '':''))
                    (drop k (split_newline text ! line occ))
                  = CHR '':'' # concept occ @ '':''
               \<and> (\<forall>m<k. take (length (CHR '':'' # concept occ @ '':''))
                             (drop m (split_newline text ! line occ))
                          \<noteq> CHR '':'' # concept occ @ '':''))
         \<and> (\<forall>occ' \<in> set (extractConceptsFromDefinitions fp text).
               line occ' = line occ \<and> concept occ' = concept occ
                 \<longrightarrow> character occ' = character occ)"
proof -
  let ?ls = "split_newline text"
  have col: "line o' < length ?ls
         \<and> character o' = indexOf (?ls ! line o') (CHR '':'' # concept o' @ '':'')
         \<and> (\<exists>a b. ?ls ! line o' = a @ (CHR '':'' # concept o' @ '':'') @ b)"
    if "o' \<in> set (extractConceptsFromDefinitions fp text)" for o'
  proof -
    from that definitionsLoop_member [of o' fp 0 False "[]" ?ls]
    obtain j sect' where j: "j < length ?ls" "line o' = j"
      "o' \<in> set (lineDefinitions fp j sect' (?ls ! j))"
      by (auto simp: extractConceptsFromDefinitions_def)
    with lineDefinitions_member [OF j(3)] show ?thesis by simp
  qed
  from col [OF assms] obtain a b where
    l: "line occ < length ?ls"
    and c: "character occ = indexOf (?ls ! line occ) (CHR '':'' # concept occ @ '':'')"
    and ab: "?ls ! line occ = a @ (CHR '':'' # concept occ @ '':'') @ b"
    by blast
  from indexOf_first [OF ab] c have first: "\<exists>k. character occ = int k
               \<and> take (length (CHR '':'' # concept occ @ '':''))
                    (drop k (split_newline text ! line occ))
                  = CHR '':'' # concept occ @ '':''
               \<and> (\<forall>m<k. take (length (CHR '':'' # concept occ @ '':''))
                             (drop m (split_newline text ! line occ))
                          \<noteq> CHR '':'' # concept occ @ '':'')"
    by simp
  have same: "\<forall>occ' \<in> set (extractConceptsFromDefinitions fp text).
               line occ' = line occ \<and> concept occ' = concept occ
                 \<longrightarrow> character occ' = character occ"
    using col c by auto
  from l c first same show ?thesis by blast
qed

theorem definition_column_is_first_occurrence_witness:
  "\<lparr>concept = ''a'', filePath = ''doc.plain'', line = 1, character = 4,
     content = Some ''  - :a:, :b:, :a:'', sectionName = Some ''definitions''\<rparr>
     \<in> set (extractConceptsFromDefinitions ''doc.plain''
              ''***definitions***\<newline>  - :a:, :b:, :a:'')
   \<and> indexOf (split_newline ''***definitions***\<newline>  - :a:, :b:, :a:'' ! 1) '':a:'' = 4"
proof -
  have m: "\<lparr>concept = ''a'', filePath = ''doc.plain'', line = 1, character = 4,
     content = Some ''  - :a:, :b:, :a:'', sectionName = Some ''definitions''\<rparr>
     \<in> set (extractConceptsFromDefinitions ''doc.plain''
              ''***definitions***\<newline>  - :a:, :b:, :a:'')"
    by code_simp
  from definition_column_is_first_occurrence [OF m] m show ?thesis
    by simp
qed

subsection \<open>The definitions of one line\<close>

lemma definitionsLoop_append:
  "definitionsLoop fp i inDef sect (ls1 @ ls2) =
     definitionsLoop fp i inDef sect ls1
     @ definitionsLoop fp (i + length ls1) (fst (sectionState inDef sect ls1))
         (snd (sectionState inDef sect ls1)) ls2"
  by (induction ls1 arbitrary: i inDef sect) (simp_all add: Let_def)

lemma sectionState_definitions:
  "(inDef \<longrightarrow> sect = ''definitions'') \<Longrightarrow> fst (sectionState inDef sect ls) \<Longrightarrow>
     snd (sectionState inDef sect ls) = ''definitions''"
  by (induction ls arbitrary: inDef sect) (auto simp: Let_def split: if_splits)

lemma pushCandidates_map:
  "pushCandidates fp n sect l candidates =
     map (\<lambda>token. \<lparr>concept = slice1 token, filePath = fp, line = n,
                     character = indexOf l token, content = Some l, sectionName = Some sect\<rparr>)
       (filter validConcept candidates)"
  by (induction candidates) simp_all

lemma lineDefinitions_accepted:
  "lineDefinitions fp n sect l =
     map (\<lambda>token. \<lparr>concept = slice1 token, filePath = fp, line = n,
                     character = indexOf l token, content = Some l, sectionName = Some sect\<rparr>)
       (acceptedTokens l)"
  by (simp add: lineDefinitions_def acceptedTokens_def pushCandidates_map split: option.splits)

lemma definitionsLoop_last:
  "definitionsLoop fp (length ls) (fst (sectionState False [] ls))
     (snd (sectionState False [] ls)) [l]
   = lineOccurrences fp ls l"
proof (cases "fst (sectionState False [] ls)")
  case True
  then have "snd (sectionState False [] ls) = ''definitions''"
    by (simp add: sectionState_definitions)
  with True show ?thesis
    by (simp add: lineOccurrences_def inDefinitions_def lineDefinitions_accepted)
next
  case False
  then show ?thesis
    by (simp add: lineOccurrences_def inDefinitions_def Let_def)
qed

lemma definitionsLoop_concat:
  "definitionsLoop fp 0 False [] ls
     = concat (map (\<lambda>j. lineOccurrences fp (take j ls) (ls ! j)) [0..<length ls])"
proof (induction ls rule: rev_induct)
  case Nil
  show ?case by simp
next
  case (snoc l ls)
  let ?f = "\<lambda>xs j. lineOccurrences fp (take j xs) (xs ! j)"
  have earlier: "map (?f (ls @ [l])) [0..<length ls] = map (?f ls) [0..<length ls]"
    by (intro map_cong refl) (simp add: nth_append)
  have "definitionsLoop fp 0 False [] (ls @ [l])
          = definitionsLoop fp 0 False [] ls @ lineOccurrences fp ls l"
    by (simp only: definitionsLoop_append add_0 definitionsLoop_last)
  also have "\<dots> = concat (map (?f ls) [0..<length ls]) @ ?f (ls @ [l]) (length ls)"
    by (simp add: snoc.IH)
  also have "\<dots> = concat (map (?f (ls @ [l])) ([0..<length ls] @ [length ls]))"
    by (simp only: earlier map_append concat_append list.map concat.simps append_Nil2)
  also have "[0..<length ls] @ [length ls] = [0..<length (ls @ [l])]"
    by simp
  finally show ?case .
qed

lemma lineOccurrences_line:
  "occ \<in> set (lineOccurrences fp before l) \<Longrightarrow> line occ = length before"
  by (auto simp: lineOccurrences_def split: if_splits)

lemma filter_line_concat:
  assumes "\<And>k occ. k < m \<Longrightarrow> occ \<in> set (f k) \<Longrightarrow> line occ = k"
  shows "n \<le> m \<Longrightarrow>
     filter (\<lambda>occ. line occ = j) (concat (map f [0..<n])) = (if j < n then f j else [])"
proof (induction n)
  case 0
  show ?case by simp
next
  case (Suc n)
  have last: "filter (\<lambda>occ. line occ = j) (f n) = (if j = n then f n else [])"
    using assms [of n] Suc.prems by (auto simp: filter_empty_conv filter_id_conv)
  from Suc show ?case
    by (auto simp: last)
qed

lemma definitions_of_line:
  assumes "j < length (split_newline text)"
  shows "filter (\<lambda>occ. line occ = j) (extractConceptsFromDefinitions fp text)
           = lineOccurrences fp (take j (split_newline text)) (split_newline text ! j)"
proof -
  let ?ls = "split_newline text"
  have "line occ = k"
    if "k < length ?ls" "occ \<in> set (lineOccurrences fp (take k ?ls) (?ls ! k))" for k occ
    using lineOccurrences_line [OF that(2)] that(1) by simp
  from filter_line_concat [of "length ?ls" "\<lambda>k. lineOccurrences fp (take k ?ls) (?ls ! k)",
      OF this, of "length ?ls" j] assms
  show ?thesis
    by (simp add: extractConceptsFromDefinitions_def definitionsLoop_concat)
qed

subsection \<open>The tokens of a list item\<close>

lemma isConceptChar_notColon: "isConceptChar c \<Longrightarrow> notColon c"
  by (auto simp: isConceptChar_def notColon_def)

lemma tokenAt_token:
  assumes "name \<noteq> []" and "\<forall>c\<in>set name. C c" and "\<not> C CHR '':''"
  shows "tokenAt C (CHR '':'' # name @ CHR '':'' # r) = Some name"
proof -
  from assms(2,3) have "takeWhile C (name @ CHR '':'' # r) = name"
    by (simp add: takeWhile_append2)
  with assms(1) show ?thesis
    by (simp add: tokenAt_def)
qed

lemma tokenAt_other: "c \<noteq> CHR '':'' \<Longrightarrow> tokenAt C (c # cs) = None"
  by (simp add: tokenAt_def)

lemma definitionTail_listItemTail:
  assumes "\<forall>name\<in>set names. name \<noteq> [] \<and> (\<forall>c\<in>set name. notColon c)"
  shows "definitionTail (listItemTail names) = length (listItemTail names)"
  using assms
proof (induction names)
  case Nil
  show ?case by simp
next
  case (Cons name names)
  have nc: "\<not> notColon CHR '':''"
    by (simp add: notColon_def)
  from Cons.prems have name: "name \<noteq> []" "\<forall>c\<in>set name. notColon c"
    by simp_all
  from Cons have rest: "definitionTail (listItemTail names) = length (listItemTail names)"
    by simp
  show ?case
    using tokenAt_token [OF name nc, of "listItemTail names"] rest
    by (simp add: isWhiteSpace_def)
qed

lemma definitionMatch_listItem:
  assumes "names \<noteq> []" and "\<forall>name\<in>set names. name \<noteq> [] \<and> (\<forall>c\<in>set name. notColon c)"
  shows "definitionMatch (listItem names) = Some (listItem names)"
proof -
  from assms(1) obtain name rest where names: "names = name # rest"
    by (cases names) auto
  have nc: "\<not> notColon CHR '':''"
    by (simp add: notColon_def)
  from assms(2) names have name: "name \<noteq> []" "\<forall>c\<in>set name. notColon c"
    and rest: "\<forall>name\<in>set rest. name \<noteq> [] \<and> (\<forall>c\<in>set name. notColon c)"
    by simp_all
  show ?thesis
    using tokenAt_token [OF name nc, of "listItemTail rest"] definitionTail_listItemTail [OF rest]
    by (simp add: names definitionMatch_def isWhiteSpace_def)
qed

lemma matchAll_listItemTail:
  assumes "\<forall>name\<in>set names. name \<noteq> [] \<and> (\<forall>c\<in>set name. notColon c)"
  shows "map snd (matchAll notColon i (listItemTail names)) = names"
  using assms
proof (induction names arbitrary: i)
  case Nil
  show ?case by simp
next
  case (Cons name names)
  have nc: "\<not> notColon CHR '':''"
    by (simp add: notColon_def)
  from Cons.prems have name: "name \<noteq> []" "\<forall>c\<in>set name. notColon c"
    and rest: "\<forall>name\<in>set names. name \<noteq> [] \<and> (\<forall>c\<in>set name. notColon c)"
    by simp_all
  show ?case
    using tokenAt_token [OF name nc, of "listItemTail names"] Cons.IH [OF rest]
    by (simp add: tokenAt_other)
qed

lemma conceptCandidates_listItem:
  assumes "names \<noteq> []" and "\<forall>name\<in>set names. name \<noteq> [] \<and> (\<forall>c\<in>set name. notColon c)"
  shows "conceptCandidates (listItem names) = map (\<lambda>name. CHR '':'' # name @ '':'') names"
proof -
  from assms(1) obtain name rest where names: "names = name # rest"
    by (cases names) auto
  have nc: "\<not> notColon CHR '':''"
    by (simp add: notColon_def)
  from assms(2) names have name: "name \<noteq> []" "\<forall>c\<in>set name. notColon c"
    and rest: "\<forall>name\<in>set rest. name \<noteq> [] \<and> (\<forall>c\<in>set name. notColon c)"
    by simp_all
  have "map snd (matchAll notColon 0 (listItem names)) = names"
    using tokenAt_token [OF name nc, of "listItemTail rest"] matchAll_listItemTail [OF rest]
    by (simp add: names tokenAt_other)
  moreover have "conceptCandidates (listItem names)
      = map (\<lambda>name. CHR '':'' # name @ '':'') (map snd (matchAll notColon 0 (listItem names)))"
    by (simp add: conceptCandidates_def case_prod_beta comp_def)
  ultimately show ?thesis by simp
qed

lemma validConcept_token:
  assumes "name \<noteq> []" and "\<forall>c\<in>set name. isConceptChar c"
  shows "validConcept (CHR '':'' # name @ '':'')"
proof -
  have "\<not> isConceptChar CHR '':''"
    by (simp add: isConceptChar_def)
  from tokenAt_token [OF assms this, of "[]"] show ?thesis
    by (simp add: validConcept_def)
qed

lemma acceptedTokens_listItem:
  assumes "names \<noteq> []"
    and "\<forall>name\<in>set names. name \<noteq> [] \<and> (\<forall>c\<in>set name. isConceptChar c)"
    and "trim l = listItem names"
  shows "acceptedTokens l = map (\<lambda>name. CHR '':'' # name @ '':'') names"
proof -
  from assms(2) have nc: "\<forall>name\<in>set names. name \<noteq> [] \<and> (\<forall>c\<in>set name. notColon c)"
    by (simp add: isConceptChar_notColon)
  from assms(2) have "\<forall>token\<in>set (map (\<lambda>name. CHR '':'' # name @ '':'') names). validConcept token"
    by (simp add: validConcept_token)
  then have "filter validConcept (map (\<lambda>name. CHR '':'' # name @ '':'') names)
      = map (\<lambda>name. CHR '':'' # name @ '':'') names"
    by (simp only: filter_True)
  then show ?thesis
    unfolding acceptedTokens_def assms(3)
    by (simp only: definitionMatch_listItem [OF assms(1) nc]
          conceptCandidates_listItem [OF assms(1) nc] option.case)
qed

lemma listItem_no_header: "\<not> isSectionHeader (listItem names)"
  by (cases names) (simp_all add: isSectionHeader_def)

lemma lineOccurrences_listItem:
  assumes "names \<noteq> []"
    and "\<forall>name\<in>set names. name \<noteq> [] \<and> (\<forall>c\<in>set name. isConceptChar c)"
    and "inDefinitions before"
    and "trim l = listItem names"
  shows "lineOccurrences fp before l
           = map (\<lambda>name. \<lparr>concept = name, filePath = fp, line = length before,
                           character = indexOf l (CHR '':'' # name @ '':''), content = Some l,
                           sectionName = Some ''definitions''\<rparr>) names"
proof -
  have "\<not> isSectionHeader (trim l)"
    unfolding assms(4) by (rule listItem_no_header)
  with assms(3) acceptedTokens_listItem [OF assms(1,2,4)] show ?thesis
    by (simp add: lineOccurrences_def comp_def)
qed

lemma validConcept_shape:
  assumes "validConcept token"
  shows "token = CHR '':'' # slice1 token @ '':''"
proof -
  from assms obtain body where b: "tokenAt isConceptChar token = Some body"
    and len: "length token = length body + 2"
    by (auto simp: validConcept_def split: option.splits)
  from tokenAt_Some [OF b] obtain r where "token = CHR '':'' # body @ CHR '':'' # r"
    by blast
  with len show ?thesis by simp
qed

lemma accepted_valid: "token \<in> set (acceptedTokens l) \<Longrightarrow> validConcept token"
  by (simp add: acceptedTokens_def)

lemma occurrences_of_name:
  assumes "inDefinitions before" and "\<not> isSectionHeader (trim l)"
  shows "length (filter (\<lambda>occ. concept occ = name) (lineOccurrences fp before l))
           = count_list (acceptedTokens l) (CHR '':'' # name @ '':'')"
proof -
  have "filter (\<lambda>token. slice1 token = name) (acceptedTokens l)
          = filter ((=) (CHR '':'' # name @ '':'')) (acceptedTokens l)"
  proof (rule filter_cong [OF refl])
    fix token assume "token \<in> set (acceptedTokens l)"
    then have "token = CHR '':'' # slice1 token @ '':''"
      by (intro validConcept_shape accepted_valid)
    then show "(slice1 token = name) = (CHR '':'' # name @ '':'' = token)"
      by (metis slice1_token)
  qed
  then have "length (filter (\<lambda>token. slice1 token = name) (acceptedTokens l))
          = count_list (acceptedTokens l) (CHR '':'' # name @ '':'')"
    by (simp add: count_list_eq_length_filter)
  with assms show ?thesis
    by (simp add: lineOccurrences_def filter_map comp_def)
qed

text \<open>
  The line \<^verbatim>\<open>- :a:, :a:\<close> in a definitions section gives two occurrences of
  \<^verbatim>\<open>a\<close>, not one: each candidate that passes the validation is pushed, and nothing
  in the loop looks at the names pushed before.
\<close>

theorem one_definition_per_line_counterexample:
  "extractConceptsFromDefinitions ''doc.plain'' ''***definitions***\<newline>- :a:, :a:''
     = [\<lparr>concept = ''a'', filePath = ''doc.plain'', line = 1, character = 2,
          content = Some ''- :a:, :a:'', sectionName = Some ''definitions''\<rparr>,
        \<lparr>concept = ''a'', filePath = ''doc.plain'', line = 1, character = 2,
          content = Some ''- :a:, :a:'', sectionName = Some ''definitions''\<rparr>]"
  by code_simp

text \<open>
  Claim C6, as amended. The extraction of definitions does not de-duplicate, neither
  within a line nor across lines. For every document, what it returns is, line after
  line, one occurrence for each accepted token of each line that lies inside a
  definitions section, a token standing there twice giving two; so the occurrences
  recorded for a line are those of its accepted tokens, and for every name their
  number is the number of times the token of that name stands among the accepted
  tokens of the line. A line inside a definitions section whose trimmed text is a
  list item of concept names, whatever names and however often repeated, gives one
  occurrence for each name written, in the order written, each with the column of the
  first place where its token stands in the line. In particular, for every concept
  name: the list item naming it twice (\<^verbatim>\<open>- :a:, :a:\<close>) gives exactly two occurrences
  of it, and the one naming it once (\<^verbatim>\<open>- :a:\<close>) gives exactly one. Two list items
  that each hold the token are two lines, and each gives its own occurrences.
\<close>

theorem definitions_not_deduplicated:
  "extractConceptsFromDefinitions fp text
     = concat (map (\<lambda>j. lineOccurrences fp (take j (split_newline text)) (split_newline text ! j))
                 [0..<length (split_newline text)])
   \<and> (j < length (split_newline text) \<longrightarrow>
        filter (\<lambda>occ. line occ = j) (extractConceptsFromDefinitions fp text)
          = lineOccurrences fp (take j (split_newline text)) (split_newline text ! j))
   \<and> (inDefinitions before \<and> \<not> isSectionHeader (trim l) \<longrightarrow>
        length (filter (\<lambda>occ. concept occ = name) (lineOccurrences fp before l))
          = count_list (acceptedTokens l) (CHR '':'' # name @ '':''))
   \<and> (names \<noteq> [] \<and> (\<forall>n\<in>set names. n \<noteq> [] \<and> (\<forall>c\<in>set n. isConceptChar c))
        \<and> inDefinitions before \<and> trim l = listItem names \<longrightarrow>
        lineOccurrences fp before l
          = map (\<lambda>n. \<lparr>concept = n, filePath = fp, line = length before,
                        character = indexOf l (CHR '':'' # n @ '':''), content = Some l,
                        sectionName = Some ''definitions''\<rparr>) names)
   \<and> (name \<noteq> [] \<and> (\<forall>c\<in>set name. isConceptChar c) \<and> inDefinitions before
        \<and> trim l = ''- :'' @ name @ '':, :'' @ name @ '':'' \<longrightarrow>
        lineOccurrences fp before l
          = [\<lparr>concept = name, filePath = fp, line = length before,
               character = indexOf l (CHR '':'' # name @ '':''), content = Some l,
               sectionName = Some ''definitions''\<rparr>,
             \<lparr>concept = name, filePath = fp, line = length before,
               character = indexOf l (CHR '':'' # name @ '':''), content = Some l,
               sectionName = Some ''definitions''\<rparr>])
   \<and> (name \<noteq> [] \<and> (\<forall>c\<in>set name. isConceptChar c) \<and> inDefinitions before
        \<and> trim l = ''- :'' @ name @ '':'' \<longrightarrow>
        lineOccurrences fp before l
          = [\<lparr>concept = name, filePath = fp, line = length before,
               character = indexOf l (CHR '':'' # name @ '':''), content = Some l,
               sectionName = Some ''definitions''\<rparr>])"
proof -
  have whole: "extractConceptsFromDefinitions fp text
     = concat (map (\<lambda>j. lineOccurrences fp (take j (split_newline text)) (split_newline text ! j))
                 [0..<length (split_newline text)])"
    by (simp add: extractConceptsFromDefinitions_def definitionsLoop_concat)
  have item: "lineOccurrences fp before l
          = map (\<lambda>n. \<lparr>concept = n, filePath = fp, line = length before,
                        character = indexOf l (CHR '':'' # n @ '':''), content = Some l,
                        sectionName = Some ''definitions''\<rparr>) names"
    if "names \<noteq> [] \<and> (\<forall>n\<in>set names. n \<noteq> [] \<and> (\<forall>c\<in>set n. isConceptChar c))
        \<and> inDefinitions before \<and> trim l = listItem names"
    using that by (intro lineOccurrences_listItem) simp_all
  have two: "lineOccurrences fp before l
          = [\<lparr>concept = name, filePath = fp, line = length before,
               character = indexOf l (CHR '':'' # name @ '':''), content = Some l,
               sectionName = Some ''definitions''\<rparr>,
             \<lparr>concept = name, filePath = fp, line = length before,
               character = indexOf l (CHR '':'' # name @ '':''), content = Some l,
               sectionName = Some ''definitions''\<rparr>]"
    if "name \<noteq> [] \<and> (\<forall>c\<in>set name. isConceptChar c) \<and> inDefinitions before
        \<and> trim l = ''- :'' @ name @ '':, :'' @ name @ '':''"
    using that lineOccurrences_listItem [of "[name, name]" before l fp] by simp
  have one: "lineOccurrences fp before l
          = [\<lparr>concept = name, filePath = fp, line = length before,
               character = indexOf l (CHR '':'' # name @ '':''), content = Some l,
               sectionName = Some ''definitions''\<rparr>]"
    if "name \<noteq> [] \<and> (\<forall>c\<in>set name. isConceptChar c) \<and> inDefinitions before
        \<and> trim l = ''- :'' @ name @ '':''"
    using that lineOccurrences_listItem [of "[name]" before l fp] by simp
  from whole definitions_of_line [of j "text" fp] occurrences_of_name [of before l name fp]
    item two one
  show ?thesis
    by blast
qed

theorem definitions_not_deduplicated_witness:
  "filter (\<lambda>occ. line occ = 1)
     (extractConceptsFromDefinitions ''doc.plain''
        ''***definitions***\<newline>- :ab:, :ab:\<newline>- :ab:, :c:, :ab:\<newline>- :ab:'')
     = [\<lparr>concept = ''ab'', filePath = ''doc.plain'', line = 1, character = 2,
          content = Some ''- :ab:, :ab:'', sectionName = Some ''definitions''\<rparr>,
        \<lparr>concept = ''ab'', filePath = ''doc.plain'', line = 1, character = 2,
          content = Some ''- :ab:, :ab:'', sectionName = Some ''definitions''\<rparr>]
   \<and> filter (\<lambda>occ. line occ = 3)
     (extractConceptsFromDefinitions ''doc.plain''
        ''***definitions***\<newline>- :ab:, :ab:\<newline>- :ab:, :c:, :ab:\<newline>- :ab:'')
     = [\<lparr>concept = ''ab'', filePath = ''doc.plain'', line = 3, character = 2,
          content = Some ''- :ab:'', sectionName = Some ''definitions''\<rparr>]
   \<and> lineOccurrences ''doc.plain'' [''***definitions***'', ''- :ab:, :ab:'']
        ''- :ab:, :c:, :ab:''
     = [\<lparr>concept = ''ab'', filePath = ''doc.plain'', line = 2, character = 2,
          content = Some ''- :ab:, :c:, :ab:'', sectionName = Some ''definitions''\<rparr>,
        \<lparr>concept = ''c'', filePath = ''doc.plain'', line = 2, character = 8,
          content = Some ''- :ab:, :c:, :ab:'', sectionName = Some ''definitions''\<rparr>,
        \<lparr>concept = ''ab'', filePath = ''doc.plain'', line = 2, character = 2,
          content = Some ''- :ab:, :c:, :ab:'', sectionName = Some ''definitions''\<rparr>]
   \<and> length (filter (\<lambda>occ. concept occ = ''ab'')
        (lineOccurrences ''doc.plain'' [''***definitions***'', ''- :ab:, :ab:'']
           ''- :ab:, :c:, :ab:'')) = 2"
proof -
  let ?text = "''***definitions***\<newline>- :ab:, :ab:\<newline>- :ab:, :c:, :ab:\<newline>- :ab:''"
  have ls: "split_newline ?text
              = [''***definitions***'', ''- :ab:, :ab:'', ''- :ab:, :c:, :ab:'', ''- :ab:'']"
    by code_simp
  have d1: "inDefinitions [''***definitions***'']"
    by code_simp
  have d2: "inDefinitions [''***definitions***'', ''- :ab:, :ab:'']"
    by code_simp
  have d3: "inDefinitions [''***definitions***'', ''- :ab:, :ab:'', ''- :ab:, :c:, :ab:'']"
    by code_simp
  have t1: "trim ''- :ab:, :ab:'' = ''- :ab:, :ab:''"
    by code_simp
  have t2: "trim ''- :ab:, :c:, :ab:'' = ''- :ab:, :c:, :ab:''"
    by code_simp
  have t3: "trim ''- :ab:'' = ''- :ab:''"
    by code_simp
  have h2: "\<not> isSectionHeader ''- :ab:, :c:, :ab:''"
    by code_simp
  have c2: "count_list (acceptedTokens ''- :ab:, :c:, :ab:'') '':ab:'' = 2"
    by code_simp
  have i1: "indexOf ''- :ab:, :ab:'' '':ab:'' = 2"
    by code_simp
  have i2: "indexOf ''- :ab:, :c:, :ab:'' '':ab:'' = 2"
    by code_simp
  have i2c: "indexOf ''- :ab:, :c:, :ab:'' '':c:'' = 8"
    by code_simp
  have i3: "indexOf ''- :ab:'' '':ab:'' = 2"
    by code_simp
  have v: "\<forall>c\<in>set ''ab''. isConceptChar c" "\<forall>c\<in>set ''c''. isConceptChar c"
    by (simp_all add: isConceptChar_def)
  note first = definitions_not_deduplicated
      [of "''doc.plain''" ?text 1 "[''***definitions***'']" "''- :ab:, :ab:''" "''ab''" "[]"]
  note second = definitions_not_deduplicated
      [of "''doc.plain''" ?text 2 "[''***definitions***'', ''- :ab:, :ab:'']"
          "''- :ab:, :c:, :ab:''" "''ab''" "[''ab'', ''c'', ''ab'']"]
  note third = definitions_not_deduplicated
      [of "''doc.plain''" ?text 3 "[''***definitions***'', ''- :ab:, :ab:'', ''- :ab:, :c:, :ab:'']"
          "''- :ab:''" "''ab''" "[]"]
  have line1: "filter (\<lambda>occ. line occ = 1) (extractConceptsFromDefinitions ''doc.plain'' ?text)
      = lineOccurrences ''doc.plain'' [''***definitions***''] ''- :ab:, :ab:''"
    using first [THEN conjunct2, THEN conjunct1] by (simp add: ls)
  have twice: "lineOccurrences ''doc.plain'' [''***definitions***''] ''- :ab:, :ab:''
      = [\<lparr>concept = ''ab'', filePath = ''doc.plain'', line = 1, character = 2,
          content = Some ''- :ab:, :ab:'', sectionName = Some ''definitions''\<rparr>,
        \<lparr>concept = ''ab'', filePath = ''doc.plain'', line = 1, character = 2,
          content = Some ''- :ab:, :ab:'', sectionName = Some ''definitions''\<rparr>]"
    using first [THEN conjunct2, THEN conjunct2, THEN conjunct2, THEN conjunct2, THEN conjunct1]
    by (simp add: d1 t1 i1 v)
  have line3: "filter (\<lambda>occ. line occ = 3) (extractConceptsFromDefinitions ''doc.plain'' ?text)
      = lineOccurrences ''doc.plain''
          [''***definitions***'', ''- :ab:, :ab:'', ''- :ab:, :c:, :ab:''] ''- :ab:''"
    using third [THEN conjunct2, THEN conjunct1] by (simp add: ls)
  have once: "lineOccurrences ''doc.plain''
          [''***definitions***'', ''- :ab:, :ab:'', ''- :ab:, :c:, :ab:''] ''- :ab:''
      = [\<lparr>concept = ''ab'', filePath = ''doc.plain'', line = 3, character = 2,
          content = Some ''- :ab:'', sectionName = Some ''definitions''\<rparr>]"
    using third [THEN conjunct2, THEN conjunct2, THEN conjunct2, THEN conjunct2, THEN conjunct2]
    by (simp add: d3 t3 i3 v)
  have item: "lineOccurrences ''doc.plain'' [''***definitions***'', ''- :ab:, :ab:'']
        ''- :ab:, :c:, :ab:''
     = [\<lparr>concept = ''ab'', filePath = ''doc.plain'', line = 2, character = 2,
          content = Some ''- :ab:, :c:, :ab:'', sectionName = Some ''definitions''\<rparr>,
        \<lparr>concept = ''c'', filePath = ''doc.plain'', line = 2, character = 8,
          content = Some ''- :ab:, :c:, :ab:'', sectionName = Some ''definitions''\<rparr>,
        \<lparr>concept = ''ab'', filePath = ''doc.plain'', line = 2, character = 2,
          content = Some ''- :ab:, :c:, :ab:'', sectionName = Some ''definitions''\<rparr>]"
    using second [THEN conjunct2, THEN conjunct2, THEN conjunct2, THEN conjunct1]
    by (simp add: d2 t2 i2 i2c v)
  have among: "length (filter (\<lambda>occ. concept occ = ''ab'')
        (lineOccurrences ''doc.plain'' [''***definitions***'', ''- :ab:, :ab:'']
           ''- :ab:, :c:, :ab:'')) = 2"
    using second [THEN conjunct2, THEN conjunct2, THEN conjunct1]
    by (simp add: d2 t2 h2 c2)
  from line1 twice line3 once item among show ?thesis
    by (simp only:)
qed

section \<open>The extraction of usages\<close>

text \<open>
  Claim C2. A document of three lines: an unindented line that names \<^verbatim>\<open>:app:\<close>, an
  indented line under it that names \<^verbatim>\<open>:task:\<close>, and a second unindented line. The
  block of the first line is scanned when the third line is read, and
  \<^verbatim>\<open>currentLineIndex\<close> is set to the third line before the scan: the one occurrence
  emitted, of \<^verbatim>\<open>task\<close>, has line 2 and not the anchor line 0, and its content is the
  indented line alone, without the anchor line. Nothing is emitted for \<^verbatim>\<open>app\<close>.
\<close>

theorem usage_anchored_at_closing_line:
  "extractConceptsFromSpecText ''doc.plain''
     ''- The :app: shows a list.\<newline>  Each :task: has a name.\<newline>- Done.''
   = [\<lparr>concept = ''task'', filePath = ''doc.plain'', line = 2, character = 7,
        content = Some ''  Each :task: has a name.\<newline>'', sectionName = Some []\<rparr>]"
  by code_simp

text \<open>
  Claim C3. A definitions section with the list item \<^verbatim>\<open>- :a:, :b:\<close>, not indented:
  the text of an unindented line is never added to \<^verbatim>\<open>prevSpecText\<close>, so the line
  gives no usage occurrence, neither of \<^verbatim>\<open>a\<close> nor of \<^verbatim>\<open>b\<close>.
\<close>

theorem definition_line_is_no_usage:
  "extractConceptsFromSpecText ''doc.plain'' ''***definitions***\<newline>- :a:, :b:\<newline>'' = []"
  by code_simp

text \<open>
  Claim C4. A document that ends with an indented line, with no line break after it:
  the loop ends with the last block still in \<^verbatim>\<open>prevSpecText\<close> and the function
  returns without scanning it, so the token \<^verbatim>\<open>:a:\<close> of the last block gives no
  usage occurrence.
\<close>

theorem final_block_not_flushed:
  "extractConceptsFromSpecText ''doc.plain'' ''- Intro.\<newline>  Uses :a: here.'' = []"
  by code_simp

section \<open>The rename plan\<close>

lemma documentsOf_set [simp]: "set (documentsOf ps) = set ps"
  by (induction ps rule: documentsOf.induct) auto

lemma documentsOf_distinct [simp]: "distinct (documentsOf ps)"
  by (induction ps rule: documentsOf.induct) auto

lemma groupPush_known:
  assumes "filePath occ \<in> fst ` set groups"
  shows "groupPush occ groups
           = map (\<lambda>(fp, occs). (fp, occs @ filter (\<lambda>c. filePath c = fp) [occ])) groups"
  using assms by (auto simp: groupPush_def)

lemma groupPush_new:
  assumes "filePath occ \<notin> fst ` set groups"
  shows "groupPush occ groups = groups @ [(filePath occ, [occ])]"
proof -
  have "map (\<lambda>(fp, occs). if fp = filePath occ then (fp, occs @ [occ]) else (fp, occs)) groups
          = groups"
    using assms by (induction groups) auto
  with assms show ?thesis
    by (simp add: groupPush_def)
qed

lemma groupByFile_general:
  "distinct (map fst groups) \<Longrightarrow>
     groupByFile occs groups
       = map (\<lambda>(fp, found). (fp, found @ filter (\<lambda>c. filePath c = fp) occs)) groups
         @ map (\<lambda>fp. (fp, filter (\<lambda>c. filePath c = fp) occs))
             (documentsOf (filter (\<lambda>p. p \<notin> fst ` set groups) (map filePath occs)))"
proof (induction occs arbitrary: groups)
  case Nil
  then show ?case by (simp add: case_prod_beta)
next
  case (Cons occ rest)
  let ?p = "filePath occ"
  show ?case
  proof (cases "?p \<in> fst ` set groups")
    case True
    let ?groups' = "map (\<lambda>(fp, occs). (fp, occs @ filter (\<lambda>c. filePath c = fp) [occ])) groups"
    have keys: "map fst ?groups' = map fst groups"
      by (simp add: case_prod_beta)
    then have keys': "fst ` set ?groups' = fst ` set groups"
      by (metis set_map)
    from Cons.prems have "distinct (map fst ?groups')" by (simp only: keys)
    from Cons.IH [OF this] have
      "groupByFile rest ?groups'
         = map (\<lambda>(fp, found). (fp, found @ filter (\<lambda>c. filePath c = fp) rest)) ?groups'
           @ map (\<lambda>fp. (fp, filter (\<lambda>c. filePath c = fp) rest))
               (documentsOf (filter (\<lambda>p. p \<notin> fst ` set groups) (map filePath rest)))"
      by (simp only: keys')
    moreover have "map (\<lambda>(fp, found). (fp, found @ filter (\<lambda>c. filePath c = fp) rest)) ?groups'
        = map (\<lambda>(fp, found). (fp, found @ filter (\<lambda>c. filePath c = fp) (occ # rest))) groups"
      by (simp add: case_prod_beta)
    moreover have "map (\<lambda>fp. (fp, filter (\<lambda>c. filePath c = fp) rest))
               (documentsOf (filter (\<lambda>p. p \<notin> fst ` set groups) (map filePath rest)))
        = map (\<lambda>fp. (fp, filter (\<lambda>c. filePath c = fp) (occ # rest)))
               (documentsOf (filter (\<lambda>p. p \<notin> fst ` set groups) (map filePath rest)))"
      using True by (intro map_cong refl) force
    ultimately show ?thesis
      using True by (simp add: groupPush_known)
  next
    case False
    let ?groups' = "groups @ [(?p, [occ])]"
    from Cons.prems False have "distinct (map fst ?groups')" by simp
    from Cons.IH [OF this] have
      "groupByFile rest ?groups'
         = map (\<lambda>(fp, found). (fp, found @ filter (\<lambda>c. filePath c = fp) rest)) ?groups'
           @ map (\<lambda>fp. (fp, filter (\<lambda>c. filePath c = fp) rest))
               (documentsOf (filter (\<lambda>p. p \<notin> fst ` set ?groups') (map filePath rest)))" .
    moreover have "map (\<lambda>(fp, found). (fp, found @ filter (\<lambda>c. filePath c = fp) rest)) groups
        = map (\<lambda>(fp, found). (fp, found @ filter (\<lambda>c. filePath c = fp) (occ # rest))) groups"
      using False by (intro map_cong refl) force
    moreover have "filter (\<lambda>p. p \<notin> fst ` set ?groups') (map filePath rest)
        = filter (\<lambda>q. q \<noteq> ?p) (filter (\<lambda>p. p \<notin> fst ` set groups) (map filePath rest))"
      by (induction rest) auto
    moreover have "map (\<lambda>fp. (fp, filter (\<lambda>c. filePath c = fp) rest))
               (documentsOf (filter (\<lambda>q. q \<noteq> ?p)
                  (filter (\<lambda>p. p \<notin> fst ` set groups) (map filePath rest))))
        = map (\<lambda>fp. (fp, filter (\<lambda>c. filePath c = fp) (occ # rest)))
               (documentsOf (filter (\<lambda>q. q \<noteq> ?p)
                  (filter (\<lambda>p. p \<notin> fst ` set groups) (map filePath rest))))"
      by (intro map_cong refl) auto
    ultimately show ?thesis
      using False by (simp add: groupPush_new)
  qed
qed

lemma groupByFile_documents:
  "groupByFile occs []
     = map (\<lambda>fp. (fp, filter (\<lambda>c. filePath c = fp) occs)) (documentsOf (map filePath occs))"
  using groupByFile_general [of "[]" occs] by simp

lemma renameEdits_plan:
  "map (\<lambda>(fp, occurrences). (fp, map (renameEdit oldName newName) occurrences))
     (groupByFile usages [])
   = renamePlan oldName newName usages"
  by (simp add: groupByFile_documents renamePlan_def renameEdit_def comp_def)

lemma findConceptUsage_own:
  "usedConceptIndex s name = Some usages \<Longrightarrow> findConceptUsage name s = Occurrences usages"
  by (simp add: findConceptUsage_def getProperty_def)

lemma renamePlan_documents: "map fst (renamePlan oldName newName usages)
    = documentsOf (map filePath usages)"
  by (simp add: renamePlan_def comp_def)

text \<open>
  The empty new name holds no character outside the alphabet, and it is rejected all
  the same: the pattern asks for one character at least.
\<close>

theorem empty_new_name_counterexample:
  "provideRenameEdits (Some ''foo'') []
     (Some \<lparr>definedConceptIndex = Map.empty,
            usedConceptIndex =
              [''foo'' \<mapsto> [\<lparr>concept = ''foo'', filePath = ''X.plain'', line = 2, character = 5,
                             content = Some ''  uses :foo:\<newline>'', sectionName = Some []\<rparr>]],
            isIndexing = False\<rparr>)
   = Inl InvalidConceptName"
  by code_simp

text \<open>
  Claim C5, as amended. A new name is valid when it is not empty and all its
  characters are of the alphabet. For every old name, new name and service: when the
  new name is not valid (it is empty or holds a character outside the alphabet),
  \<^verbatim>\<open>provideRenameEdits\<close> throws, whatever the index holds and even without a
  service, so before any replacement is computed. When the new name is valid and the
  index of usages binds the old name to a list of occurrences that is not empty, the
  result is the rename plan: one batch for each document of these occurrences, the
  documents all different, and in the batch of a document one replacement for each of
  its occurrences, on the occurrence's line from its column plus one to its column
  plus one plus the length of the old name, with the new name as the text.
\<close>

theorem rename_plan:
  "(validNewName newName \<longleftrightarrow> newName \<noteq> [] \<and> (\<forall>c \<in> set newName. isConceptChar c))
   \<and> (\<not> validNewName newName \<longrightarrow>
        provideRenameEdits (Some oldName) newName service = Inl InvalidConceptName)
   \<and> (validNewName newName \<and> usedConceptIndex s oldName = Some usages \<and> usages \<noteq> [] \<longrightarrow>
        provideRenameEdits (Some oldName) newName (Some s)
          = Inr (Some (renamePlan oldName newName usages)))
   \<and> distinct (map fst (renamePlan oldName newName usages))
   \<and> set (map fst (renamePlan oldName newName usages)) = filePath ` set usages"
proof -
  have valid: "validNewName newName \<longleftrightarrow> newName \<noteq> [] \<and> (\<forall>c \<in> set newName. isConceptChar c)"
    by (simp add: validNewName_def list_all_iff)
  have rejected: "provideRenameEdits (Some oldName) newName service = Inl InvalidConceptName"
    if "\<not> validNewName newName"
    using that by (simp add: provideRenameEdits_def)
  have plan: "provideRenameEdits (Some oldName) newName (Some s)
          = Inr (Some (renamePlan oldName newName usages))"
    if "validNewName newName \<and> usedConceptIndex s oldName = Some usages \<and> usages \<noteq> []"
    using that by (simp add: provideRenameEdits_def findConceptUsage_own renameEdits_plan)
  have batches: "distinct (map fst (renamePlan oldName newName usages))
      \<and> set (map fst (renamePlan oldName newName usages)) = filePath ` set usages"
    by (simp add: renamePlan_documents)
  from valid rejected plan batches show ?thesis
    by blast
qed

theorem rename_plan_witness:
  "provideRenameEdits (Some ''foo'') ''barbaz!'' None = Inl InvalidConceptName
   \<and> provideRenameEdits (Some ''foo'') ''bar''
     (Some \<lparr>definedConceptIndex = Map.empty,
            usedConceptIndex =
              [''foo'' \<mapsto> [\<lparr>concept = ''foo'', filePath = ''X.plain'', line = 2, character = 5,
                             content = Some ''  uses :foo:\<newline>'', sectionName = Some []\<rparr>]],
            isIndexing = False\<rparr>)
     = Inr (Some [(''X.plain'', [\<lparr>startLine = 2, startCharacter = 6, endLine = 2,
                                  endCharacter = 9, newText = ''bar''\<rparr>])])"
proof -
  have bad: "\<not> validNewName ''barbaz!''"
    by code_simp
  have good: "validNewName ''bar''"
    by code_simp
  from bad good
    rename_plan [of "''barbaz!''" "''foo''" None]
    rename_plan [of "''bar''" "''foo''" _
      "\<lparr>definedConceptIndex = Map.empty,
            usedConceptIndex =
              [''foo'' \<mapsto> [\<lparr>concept = ''foo'', filePath = ''X.plain'', line = 2, character = 5,
                             content = Some ''  uses :foo:\<newline>'', sectionName = Some []\<rparr>]],
            isIndexing = False\<rparr>"
      "[\<lparr>concept = ''foo'', filePath = ''X.plain'', line = 2, character = 5,
                             content = Some ''  uses :foo:\<newline>'', sectionName = Some []\<rparr>]"]
  show ?thesis
    by (simp add: renamePlan_def)
qed

end
